theory Spec2Isabelle
  imports Main "HOL-Library.Word"
begin

unbundle bit_operations_syntax

section \<open>Constants of the missing header\<close>

text \<open>
  The functions of \<^verbatim>\<open>ipaddrcheck_functions.c\<close> return and compare the integer macros of
  \<^verbatim>\<open>ipaddrcheck_functions.h\<close>, which is not among the sources. The range validators test
  results with \<^verbatim>\<open>!regex_check_res\<close> and \<^verbatim>\<open>is_ipv4_single(left) && ...\<close>, so failure is
  zero and success is not.
\<close>

definition RESULT_SUCCESS :: int where
  \<comment> \<open>Modelled from the spec: the macro of the missing header; section 9 calls it "the
      success/failure integer convention", and the truth tests of the range validators need a
      nonzero success.\<close>
  "RESULT_SUCCESS = 1"

definition RESULT_FAILURE :: int where
  \<comment> \<open>Modelled from the spec: the macro of the missing header; zero, as \<^verbatim>\<open>!regex_check_res\<close>
      needs.\<close>
  "RESULT_FAILURE = 0"

definition LOOPBACK_ALLOWED :: int where
  \<comment> \<open>Modelled from the spec: the macro of the missing header for "loopback explicitly
      allowed" (section 4.3).\<close>
  "LOOPBACK_ALLOWED = 1"

definition INVALID_PROTO :: int where
  \<comment> \<open>Modelled from the spec: the "invalid/none tag" of section 4.2, the value the parser
      library's protocol query gives for a handle that is no address.\<close>
  "INVALID_PROTO = - 1"

definition CIDR_IPV4 :: int where
  \<comment> \<open>Modelled from the spec: protocol family tag "IPv4" of the parser library (section 6).\<close>
  "CIDR_IPV4 = 1"

definition CIDR_IPV6 :: int where
  \<comment> \<open>Modelled from the spec: protocol family tag "IPv6" of the parser library (section 6).\<close>
  "CIDR_IPV6 = 2"

definition newline :: char where
  "newline = CHR 0x0A"

definition NUL :: char where
  "NUL = CHR 0x00"

section \<open>The pattern-matching capability\<close>

text \<open>
  \<^verbatim>\<open>regex_matches\<close> compiles a Perl-compatible pattern with no option and runs it on the
  whole subject from offset 0. The patterns of the source use character classes, \<^verbatim>\<open>.\<close>,
  concatenation, alternation, \<^verbatim>\<open>*\<close>, \<^verbatim>\<open>+\<close>, counted repetition, the anchors \<^verbatim>\<open>^\<close> and \<^verbatim>\<open>$\<close>,
  and one back reference to a group that can only capture \<^verbatim>\<open>::\<close>. With no option set,
  \<^verbatim>\<open>.\<close> matches any character but the line feed, \<^verbatim>\<open>^\<close> holds at the start of the subject
  only, and \<^verbatim>\<open>$\<close> holds at its end and also just before a line feed that is its last character.
\<close>

datatype rexp =
    Fail
  | Eps
  | Class "char list"
  | Dot
  | Cat rexp rexp
  | Or rexp rexp
  | Rep rexp

primrec nullable :: "rexp \<Rightarrow> bool" where
  "nullable Fail = False"
| "nullable Eps = True"
| "nullable (Class cs) = False"
| "nullable Dot = False"
| "nullable (Cat r s) = (nullable r \<and> nullable s)"
| "nullable (Or r s) = (nullable r \<or> nullable s)"
| "nullable (Rep r) = True"

primrec deriv :: "char \<Rightarrow> rexp \<Rightarrow> rexp" where
  "deriv c Fail = Fail"
| "deriv c Eps = Fail"
| "deriv c (Class cs) = (if c \<in> set cs then Eps else Fail)"
| "deriv c Dot = (if c = newline then Fail else Eps)"
| "deriv c (Cat r s) =
     (if nullable r then Or (Cat (deriv c r) s) (deriv c s) else Cat (deriv c r) s)"
| "deriv c (Or r s) = Or (deriv c r) (deriv c s)"
| "deriv c (Rep r) = Cat (deriv c r) (Rep r)"

fun match :: "rexp \<Rightarrow> string \<Rightarrow> bool" where
  "match r [] = nullable r"
| "match r (c # cs) = match (deriv c r) cs"

text \<open>Derived forms: \<^verbatim>\<open>r+\<close>, \<^verbatim>\<open>r{n}\<close>, \<^verbatim>\<open>r{0,n}\<close> and a literal string.\<close>

definition some_rx :: "rexp \<Rightarrow> rexp" where
  "some_rx r = Cat r (Rep r)"

primrec times_rx :: "nat \<Rightarrow> rexp \<Rightarrow> rexp" where
  "times_rx 0 r = Eps"
| "times_rx (Suc n) r = Cat r (times_rx n r)"

primrec upto_rx :: "nat \<Rightarrow> rexp \<Rightarrow> rexp" where
  "upto_rx 0 r = Eps"
| "upto_rx (Suc n) r = Or (Cat r (upto_rx n r)) Eps"

primrec lit_rx :: "string \<Rightarrow> rexp" where
  "lit_rx [] = Eps"
| "lit_rx (c # cs) = Cat (Class [c]) (lit_rx cs)"

text \<open>
  A compiled pattern: whether it starts with \<^verbatim>\<open>^\<close>, its body, whether it ends with \<^verbatim>\<open>$\<close>.
\<close>

record pattern =
  caret :: bool
  body :: rexp
  dollar :: bool

definition at_dollar :: "string \<Rightarrow> nat \<Rightarrow> bool" where
  "at_dollar subject j =
     (j = length subject \<or> (Suc j = length subject \<and> subject ! j = newline))"

definition match_between :: "pattern \<Rightarrow> string \<Rightarrow> nat \<Rightarrow> nat \<Rightarrow> bool" where
  "match_between p subject i j =
     (if dollar p \<and> \<not> at_dollar subject j then False
      else match (body p) (take (j - i) (drop i subject)))"

definition match_from :: "pattern \<Rightarrow> string \<Rightarrow> nat \<Rightarrow> bool" where
  "match_from p subject i =
     list_ex (match_between p subject i) [i ..< Suc (length subject)]"

definition pcre_exec :: "pattern \<Rightarrow> string \<Rightarrow> int" where
  \<comment> \<open>0 when some substring matches (the source passes an offsets vector too small for any
      pair, for which the library reports 0), the no-match error code otherwise.\<close>
  "pcre_exec p subject =
     (if list_ex (match_from p subject)
           (if caret p then [0] else [0 ..< Suc (length subject)])
      then 0 else - 1)"

definition regex_matches :: "pattern \<Rightarrow> string \<Rightarrow> int" where
  "regex_matches regex str =
     (let rc = pcre_exec regex str
      in if rc \<ge> 0 then RESULT_SUCCESS else RESULT_FAILURE)"

section \<open>Address string functions\<close>

definition digit :: rexp where
  \<comment> \<open>\<^verbatim>\<open>\d\<close>\<close>
  "digit = Class ''0123456789''"

definition nonzero :: rexp where
  \<comment> \<open>\<^verbatim>\<open>[1-9]\<close>\<close>
  "nonzero = Class ''123456789''"

definition octet :: rexp where
  \<comment> \<open>\<^verbatim>\<open>([1-9]\d{0,2}|0)\<close>\<close>
  "octet = Or (Cat nonzero (upto_rx 2 digit)) (Class ''0'')"

definition hexcolon :: rexp where
  \<comment> \<open>\<^verbatim>\<open>[0-9a-fA-F\:]\<close>\<close>
  "hexcolon = Class ''0123456789abcdefABCDEF:''"

definition digitdot :: rexp where
  \<comment> \<open>\<^verbatim>\<open>[0-9\.]\<close>\<close>
  "digitdot = Class ''0123456789.''"

definition anchored :: "rexp \<Rightarrow> pattern" where
  \<comment> \<open>\<^verbatim>\<open>^(r)$\<close>\<close>
  "anchored r = \<lparr>caret = True, body = r, dollar = True\<rparr>"

definition floating :: "rexp \<Rightarrow> pattern" where
  \<comment> \<open>a pattern with no anchor\<close>
  "floating r = \<lparr>caret = False, body = r, dollar = False\<rparr>"

definition duplicate_double_colons_regex :: pattern where
  \<comment> \<open>\<^verbatim>\<open>.*(::).*\1\<close>: group 1 is the literal \<^verbatim>\<open>::\<close>, so \<^verbatim>\<open>\1\<close> stands for \<^verbatim>\<open>::\<close>\<close>
  "duplicate_double_colons_regex =
     floating (Cat (Rep Dot) (Cat (lit_rx ''::'') (Cat (Rep Dot) (lit_rx ''::''))))"

definition ipv4_cidr_regex :: pattern where
  \<comment> \<open>\<^verbatim>\<open>^((([1-9]\d{0,2}|0)\.){3}([1-9]\d{0,2}|0)\/([1-9]\d*|0))$\<close>\<close>
  "ipv4_cidr_regex =
     anchored (Cat (times_rx 3 (Cat octet (Class ''.'')))
                (Cat octet (Cat (Class ''/'') (Or (Cat nonzero (Rep digit)) (Class ''0'')))))"

definition ipv4_single_regex :: pattern where
  \<comment> \<open>\<^verbatim>\<open>^((([1-9]\d{0,2}|0)\.){3}([1-9]\d{0,2}|0))$\<close>\<close>
  "ipv4_single_regex = anchored (Cat (times_rx 3 (Cat octet (Class ''.''))) octet)"

definition ipv6_cidr_regex :: pattern where
  \<comment> \<open>\<^verbatim>\<open>^((([0-9a-fA-F\:])+)(\/\d{1,3}))$\<close>\<close>
  "ipv6_cidr_regex =
     anchored (Cat (some_rx hexcolon) (Cat (Class ''/'') (Cat digit (upto_rx 2 digit))))"

definition ipv6_single_regex :: pattern where
  \<comment> \<open>\<^verbatim>\<open>^(([0-9a-fA-F\:])+)$\<close>\<close>
  "ipv6_single_regex = anchored (some_rx hexcolon)"

definition ipv4_range_regex :: pattern where
  \<comment> \<open>\<^verbatim>\<open>^([0-9\.]+\-[0-9\.]+)$\<close>\<close>
  "ipv4_range_regex = anchored (Cat (some_rx digitdot) (Cat (Class ''-'') (some_rx digitdot)))"

definition ipv6_range_regex :: pattern where
  \<comment> \<open>\<^verbatim>\<open>^([0-9a-fA-F:]+\-[0-9a-fA-F:]+)$\<close>\<close>
  "ipv6_range_regex = anchored (Cat (some_rx hexcolon) (Cat (Class ''-'') (some_rx hexcolon)))"

definition duplicate_double_colons :: "string \<Rightarrow> int" where
  "duplicate_double_colons address_str = regex_matches duplicate_double_colons_regex address_str"

definition is_ipv4_cidr :: "string \<Rightarrow> int" where
  "is_ipv4_cidr address_str = regex_matches ipv4_cidr_regex address_str"

definition is_ipv4_single :: "string \<Rightarrow> int" where
  "is_ipv4_single address_str = regex_matches ipv4_single_regex address_str"

definition is_ipv6_cidr :: "string \<Rightarrow> int" where
  "is_ipv6_cidr address_str = regex_matches ipv6_cidr_regex address_str"

definition is_ipv6_single :: "string \<Rightarrow> int" where
  "is_ipv6_single address_str = regex_matches ipv6_single_regex address_str"

definition is_any_cidr :: "string \<Rightarrow> int" where
  "is_any_cidr address_str =
     (if is_ipv4_cidr address_str = RESULT_SUCCESS \<or> is_ipv6_cidr address_str = RESULT_SUCCESS
      then RESULT_SUCCESS else RESULT_FAILURE)"

definition is_any_single :: "string \<Rightarrow> int" where
  "is_any_single address_str =
     (if is_ipv4_single address_str = RESULT_SUCCESS \<or> is_ipv6_single address_str = RESULT_SUCCESS
      then RESULT_SUCCESS else RESULT_FAILURE)"

section \<open>The address library interface\<close>

text \<open>
  The classifiers work on handles of an external address library (section 6 of the
  specification): a parser from text to a handle, the protocol family and prefix length of a
  handle, equality and containment tests that answer 0 for "yes", the derived network and
  broadcast addresses, and the conversion to the socket address structures. The library is
  not part of the repository, so the model takes it as a parameter: a record of its functions
  over an arbitrary type of handles. A concrete instance is given further down.
\<close>

record in_addr =
  s_addr :: "32 word"

text \<open>
  The sixteen bytes of \<^verbatim>\<open>struct in6_addr\<close>, as a function of the index; only indices below
  16 are ever read.
\<close>

record in6_addr =
  s6_addr :: "nat \<Rightarrow> 8 word"

record 'c cidr_lib =
  cidr_from_str :: "string \<Rightarrow> 'c"
  cidr_get_proto :: "'c \<Rightarrow> int"
  cidr_get_pflen :: "'c \<Rightarrow> int"
  cidr_equals :: "'c \<Rightarrow> 'c \<Rightarrow> int"
  cidr_contains :: "'c \<Rightarrow> 'c \<Rightarrow> int"
  cidr_addr_network :: "'c \<Rightarrow> 'c"
  cidr_addr_broadcast :: "'c \<Rightarrow> 'c"
  cidr_to_inaddr :: "'c \<Rightarrow> in_addr option"
  cidr_to_in6addr :: "'c \<Rightarrow> in6_addr option"

text \<open>
  The reserved address blocks are string macros of the missing header; the specification
  names them (section 3) without giving their values, so the table is a parameter as well.
\<close>

record reserved_blocks =
  IPV4_MULTICAST :: string
  IPV4_LOOPBACK :: string
  IPV4_LINKLOCAL :: string
  IPV4_RFC1918_A :: string
  IPV4_RFC1918_B :: string
  IPV4_RFC1918_C :: string
  IPV4_UNSPECIFIED :: string
  IPV4_THIS :: string
  IPV4_LIMITED_BROADCAST :: string
  IPV6_MULTICAST :: string
  IPV6_LINKLOCAL :: string
  IPV6_LOOPBACK :: string

section \<open>Address checking functions\<close>

definition is_valid_address :: "'c cidr_lib \<Rightarrow> 'c \<Rightarrow> int" where
  "is_valid_address L address =
     (if cidr_get_proto L address \<noteq> INVALID_PROTO then RESULT_SUCCESS else RESULT_FAILURE)"

definition is_ipv4 :: "'c cidr_lib \<Rightarrow> 'c \<Rightarrow> int" where
  "is_ipv4 L address =
     (if cidr_get_proto L address = CIDR_IPV4 then RESULT_SUCCESS else RESULT_FAILURE)"

definition is_ipv4_host :: "'c cidr_lib \<Rightarrow> 'c \<Rightarrow> int" where
  "is_ipv4_host L address =
     (if cidr_get_proto L address = CIDR_IPV4 \<and>
         (cidr_equals L address (cidr_addr_network L address) < 0 \<or>
          cidr_get_pflen L address \<ge> 31)
      then RESULT_SUCCESS else RESULT_FAILURE)"

definition is_ipv4_net :: "'c cidr_lib \<Rightarrow> 'c \<Rightarrow> int" where
  "is_ipv4_net L address =
     (if cidr_get_proto L address = CIDR_IPV4 \<and>
         cidr_equals L address (cidr_addr_network L address) = 0
      then RESULT_SUCCESS else RESULT_FAILURE)"

definition is_ipv4_broadcast :: "'c cidr_lib \<Rightarrow> 'c \<Rightarrow> int" where
  "is_ipv4_broadcast L address =
     (if cidr_get_proto L address = CIDR_IPV4 \<and>
         cidr_equals L address (cidr_addr_broadcast L address) = 0 \<and>
         cidr_get_pflen L address < 31
      then RESULT_SUCCESS else RESULT_FAILURE)"

definition is_ipv4_multicast :: "'c cidr_lib \<Rightarrow> reserved_blocks \<Rightarrow> 'c \<Rightarrow> int" where
  "is_ipv4_multicast L T address =
     (if cidr_get_proto L address = CIDR_IPV4 \<and>
         cidr_contains L (cidr_from_str L (IPV4_MULTICAST T)) address = 0
      then RESULT_SUCCESS else RESULT_FAILURE)"

definition is_ipv4_loopback :: "'c cidr_lib \<Rightarrow> reserved_blocks \<Rightarrow> 'c \<Rightarrow> int" where
  "is_ipv4_loopback L T address =
     (if cidr_get_proto L address = CIDR_IPV4 \<and>
         cidr_contains L (cidr_from_str L (IPV4_LOOPBACK T)) address = 0
      then RESULT_SUCCESS else RESULT_FAILURE)"

definition is_ipv4_link_local :: "'c cidr_lib \<Rightarrow> reserved_blocks \<Rightarrow> 'c \<Rightarrow> int" where
  "is_ipv4_link_local L T address =
     (if cidr_get_proto L address = CIDR_IPV4 \<and>
         cidr_contains L (cidr_from_str L (IPV4_LINKLOCAL T)) address = 0
      then RESULT_SUCCESS else RESULT_FAILURE)"

definition is_ipv4_rfc1918 :: "'c cidr_lib \<Rightarrow> reserved_blocks \<Rightarrow> 'c \<Rightarrow> int" where
  "is_ipv4_rfc1918 L T address =
     (if cidr_get_proto L address = CIDR_IPV4 \<and>
         (cidr_contains L (cidr_from_str L (IPV4_RFC1918_A T)) address = 0 \<or>
          cidr_contains L (cidr_from_str L (IPV4_RFC1918_B T)) address = 0 \<or>
          cidr_contains L (cidr_from_str L (IPV4_RFC1918_C T)) address = 0)
      then RESULT_SUCCESS else RESULT_FAILURE)"

definition is_ipv6 :: "'c cidr_lib \<Rightarrow> 'c \<Rightarrow> int" where
  "is_ipv6 L address =
     (if cidr_get_proto L address = CIDR_IPV6 then RESULT_SUCCESS else RESULT_FAILURE)"

definition is_ipv6_host :: "'c cidr_lib \<Rightarrow> 'c \<Rightarrow> int" where
  "is_ipv6_host L address =
     (if cidr_get_proto L address = CIDR_IPV6 \<and>
         (cidr_equals L address (cidr_addr_network L address) < 0 \<or>
          cidr_get_pflen L address \<ge> 127)
      then RESULT_SUCCESS else RESULT_FAILURE)"

definition is_ipv6_net :: "'c cidr_lib \<Rightarrow> 'c \<Rightarrow> int" where
  "is_ipv6_net L address =
     (if cidr_get_proto L address = CIDR_IPV6 \<and>
         cidr_equals L address (cidr_addr_network L address) = 0
      then RESULT_SUCCESS else RESULT_FAILURE)"

definition is_ipv6_multicast :: "'c cidr_lib \<Rightarrow> reserved_blocks \<Rightarrow> 'c \<Rightarrow> int" where
  "is_ipv6_multicast L T address =
     (if cidr_get_proto L address = CIDR_IPV6 \<and>
         cidr_contains L (cidr_from_str L (IPV6_MULTICAST T)) address = 0
      then RESULT_SUCCESS else RESULT_FAILURE)"

definition is_ipv6_link_local :: "'c cidr_lib \<Rightarrow> reserved_blocks \<Rightarrow> 'c \<Rightarrow> int" where
  "is_ipv6_link_local L T address =
     (if cidr_get_proto L address = CIDR_IPV6 \<and>
         cidr_contains L (cidr_from_str L (IPV6_LINKLOCAL T)) address = 0
      then RESULT_SUCCESS else RESULT_FAILURE)"

definition is_any_host :: "'c cidr_lib \<Rightarrow> 'c \<Rightarrow> int" where
  "is_any_host L address =
     (if is_ipv4_host L address = RESULT_SUCCESS \<or> is_ipv6_host L address = RESULT_SUCCESS
      then RESULT_SUCCESS else RESULT_FAILURE)"

definition is_any_net :: "'c cidr_lib \<Rightarrow> 'c \<Rightarrow> int" where
  "is_any_net L address =
     (if is_ipv4_net L address = RESULT_SUCCESS \<or> is_ipv6_net L address = RESULT_SUCCESS
      then RESULT_SUCCESS else RESULT_FAILURE)"

definition is_valid_intf_address ::
  "'c cidr_lib \<Rightarrow> reserved_blocks \<Rightarrow> 'c \<Rightarrow> string \<Rightarrow> int \<Rightarrow> int" where
  "is_valid_intf_address L T address address_str allow_loopback =
     (if is_ipv4_broadcast L address = RESULT_FAILURE \<and>
         is_ipv4_multicast L T address = RESULT_FAILURE \<and>
         is_ipv6_multicast L T address = RESULT_FAILURE \<and>
         (is_ipv4_loopback L T address = RESULT_FAILURE \<or> allow_loopback = LOOPBACK_ALLOWED) \<and>
         cidr_equals L address (cidr_from_str L (IPV6_LOOPBACK T)) \<noteq> 0 \<and>
         cidr_equals L address (cidr_from_str L (IPV4_UNSPECIFIED T)) \<noteq> 0 \<and>
         cidr_contains L (cidr_from_str L (IPV4_THIS T)) address \<noteq> 0 \<and>
         cidr_equals L address (cidr_from_str L (IPV4_LIMITED_BROADCAST T)) \<noteq> 0 \<and>
         is_any_host L address = RESULT_SUCCESS \<and>
         is_any_cidr address_str = RESULT_SUCCESS
      then RESULT_SUCCESS else RESULT_FAILURE)"

section \<open>Splitting a range\<close>

text \<open>
  \<^verbatim>\<open>split_range\<close> writes through raw pointers into two caller-supplied arrays and checks no
  bound ("patently unsafe", its comment says). A buffer is a list of cells, a cell not yet
  written holds \<open>None\<close>; a write past the end of a buffer and a read of a string that meets
  an unwritten cell or no terminator are errors of the model.
\<close>

datatype error = Buffer_overflow | Indeterminate_read | Null_dereference

datatype target = To_left | To_right

record split_state =
  ptr :: target
  index :: nat
  left_buf :: "char option list"
  right_buf :: "char option list"

definition poke :: "split_state \<Rightarrow> char \<Rightarrow> error + split_state" where
  \<comment> \<open>\<^verbatim>\<open>ptr[index] = c\<close>\<close>
  "poke st c =
     (case ptr st of
        To_left \<Rightarrow>
          if index st < length (left_buf st)
          then Inr (st\<lparr>left_buf := (left_buf st)[index st := Some c]\<rparr>)
          else Inl Buffer_overflow
      | To_right \<Rightarrow>
          if index st < length (right_buf st)
          then Inr (st\<lparr>right_buf := (right_buf st)[index st := Some c]\<rparr>)
          else Inl Buffer_overflow)"

fun split_loop :: "string \<Rightarrow> split_state \<Rightarrow> error + split_state" where
  "split_loop [] st = Inr st"
| "split_loop (c # cs) st =
     (if c = CHR ''-'' then
        (case poke st NUL of
           Inl e \<Rightarrow> Inl e
         | Inr st' \<Rightarrow> split_loop cs (st'\<lparr>ptr := To_right, index := 0\<rparr>))
      else
        (case poke st c of
           Inl e \<Rightarrow> Inl e
         | Inr st' \<Rightarrow> split_loop cs (st'\<lparr>index := Suc (index st')\<rparr>)))"

definition split_range ::
  "string \<Rightarrow> char option list \<Rightarrow> char option list \<Rightarrow>
   error + (char option list \<times> char option list)" where
  "split_range range_str left right =
     (case split_loop range_str \<lparr>ptr = To_left, index = 0, left_buf = left, right_buf = right\<rparr> of
        Inl e \<Rightarrow> Inl e
      | Inr st \<Rightarrow>
          (case poke st NUL of
             Inl e \<Rightarrow> Inl e
           | Inr st' \<Rightarrow> Inr (left_buf st', right_buf st')))"

fun c_str :: "char option list \<Rightarrow> error + string" where
  \<comment> \<open>the string a buffer holds: its cells up to the first terminator\<close>
  "c_str [] = Inl Buffer_overflow"
| "c_str (None # cells) = Inl Indeterminate_read"
| "c_str (Some c # cells) =
     (if c = NUL then Inr []
      else (case c_str cells of Inl e \<Rightarrow> Inl e | Inr s \<Rightarrow> Inr (c # s)))"

definition split_into :: "nat \<Rightarrow> string \<Rightarrow> error + (string \<times> string)" where
  \<comment> \<open>\<^verbatim>\<open>char left[n]; char right[n]; split_range(range_str, left, right);\<close> and the two
      strings the arrays then hold\<close>
  "split_into n range_str =
     (case split_range range_str (replicate n None) (replicate n None) of
        Inl e \<Rightarrow> Inl e
      | Inr (left_cells, right_cells) \<Rightarrow>
          (case c_str left_cells of
             Inl e \<Rightarrow> Inl e
           | Inr left \<Rightarrow>
               (case c_str right_cells of
                  Inl e \<Rightarrow> Inl e
                | Inr right \<Rightarrow> Inr (left, right))))"

section \<open>Comparing IPv6 addresses\<close>

function compare_ipv6_from :: "nat \<Rightarrow> in6_addr \<Rightarrow> in6_addr \<Rightarrow> int" where
  "compare_ipv6_from i left right =
     (if i < 16 then
        (if s6_addr left i < s6_addr right i then - 1
         else if s6_addr left i > s6_addr right i then 1
         else compare_ipv6_from (Suc i) left right)
      else 0)"
  by pat_completeness auto
termination
  by (relation "measure (\<lambda>(i, left, right). 16 - i)") auto

declare compare_ipv6_from.simps [simp del]

definition compare_ipv6 :: "in6_addr \<Rightarrow> in6_addr \<Rightarrow> int" where
  "compare_ipv6 left right = compare_ipv6_from 0 left right"

section \<open>Range validation\<close>

definition digit_char :: "nat \<Rightarrow> char" where
  "digit_char d = ''0123456789'' ! d"

fun decimal :: "nat \<Rightarrow> string" where
  \<comment> \<open>a number in decimal, as \<^verbatim>\<open>%u\<close> prints it\<close>
  "decimal n = (if n < 10 then [digit_char n] else decimal (n div 10) @ [digit_char (n mod 10)])"

declare decimal.simps [simp del]

definition sprintf_prefixed :: "nat \<Rightarrow> string \<Rightarrow> int \<Rightarrow> error + string" where
  \<comment> \<open>\<^verbatim>\<open>sprintf(buf, "%s/%u", left, prefix_length)\<close> into a buffer of \<open>capacity\<close> bytes;
      the callers pass a positive \<open>prefix_length\<close>\<close>
  "sprintf_prefixed capacity left prefix_length =
     (let printed = left @ ''/'' @ decimal (nat prefix_length)
      in if length printed < capacity then Inr printed else Inl Buffer_overflow)"

definition say :: "int \<Rightarrow> string \<Rightarrow> string list" where
  \<comment> \<open>\<^verbatim>\<open>if( verbose ) fprintf(stderr, ...)\<close>: the lines written to the error stream\<close>
  "say verbose line = (if verbose \<noteq> 0 then [line] else [])"

definition is_ipv4_range ::
  "'c cidr_lib \<Rightarrow> string \<Rightarrow> int \<Rightarrow> int \<Rightarrow> error + (int \<times> string list)" where
  "is_ipv4_range L range_str prefix_length verbose =
     (let regex_check_res = regex_matches ipv4_range_regex range_str in
      if regex_check_res = 0 then
        Inr (RESULT_FAILURE,
             say verbose (''Malformed range '' @ range_str @
                          '': must be a pair of hyphen-separated IPv4 addresses'' @ [newline]))
      else
        (case split_into 16 range_str of
           Inl e \<Rightarrow> Inl e
         | Inr (left, right) \<Rightarrow>
           (let left_addr = cidr_from_str L left;
                right_addr = cidr_from_str L right in
            if \<not> (is_ipv4_single left \<noteq> 0 \<and> is_valid_address L left_addr \<noteq> 0) then
              Inr (RESULT_FAILURE,
                   say verbose (''Malformed range '' @ range_str @ '': '' @ left @
                                '' is not a valid IPv4 address'' @ [newline]))
            else if \<not> (is_ipv4_single right \<noteq> 0 \<and> is_valid_address L right_addr \<noteq> 0) then
              Inr (RESULT_FAILURE,
                   say verbose (''Malformed range '' @ range_str @ '': '' @ right @
                                '' is not a valid IPv4 address'' @ [newline]))
            else
              (case cidr_to_inaddr L left_addr of
                 None \<Rightarrow> Inl Null_dereference
               | Some left_in_addr \<Rightarrow>
              (case cidr_to_inaddr L right_addr of
                 None \<Rightarrow> Inl Null_dereference
               | Some right_in_addr \<Rightarrow>
                 if s_addr left_in_addr \<le> s_addr right_in_addr then
                   (if prefix_length > 0 then
                      (case sprintf_prefixed 19 left prefix_length of
                         Inl e \<Rightarrow> Inl e
                       | Inr left_pref_str \<Rightarrow>
                           (let left_addr_with_pref = cidr_from_str L left_pref_str;
                                left_net = cidr_addr_network L left_addr_with_pref in
                            if cidr_contains L left_net right_addr = 0
                            then Inr (RESULT_SUCCESS, [])
                            else Inr (RESULT_FAILURE, [])))
                    else Inr (RESULT_SUCCESS, []))
                 else
                   Inr (RESULT_FAILURE,
                        say verbose (''Malformed IPv4 range '' @ range_str @
                                     '': its first address is greater than the last'' @
                                     [newline])))))))"

definition is_ipv6_range ::
  "'c cidr_lib \<Rightarrow> string \<Rightarrow> int \<Rightarrow> int \<Rightarrow> error + (int \<times> string list)" where
  "is_ipv6_range L range_str prefix_length verbose =
     (let regex_check_res = regex_matches ipv6_range_regex range_str in
      if regex_check_res = 0 then
        Inr (RESULT_FAILURE,
             say verbose (''Malformed range '' @ range_str @
                          '': must be a pair of hyphen-separated IPv6 addresses'' @ [newline]))
      else
        (case split_into 40 range_str of
           Inl e \<Rightarrow> Inl e
         | Inr (left, right) \<Rightarrow>
           (let left_addr = cidr_from_str L left;
                right_addr = cidr_from_str L right in
            if \<not> (is_ipv6_single left \<noteq> 0 \<and> is_valid_address L left_addr \<noteq> 0 \<and>
                  \<not> duplicate_double_colons left \<noteq> 0) then
              Inr (RESULT_FAILURE,
                   say verbose (''Malformed range '' @ range_str @ '': '' @ left @
                                '' is not a valid IPv6 address'' @ [newline]))
            else if \<not> (is_ipv6_single right \<noteq> 0 \<and> is_valid_address L right_addr \<noteq> 0 \<and>
                       \<not> duplicate_double_colons right \<noteq> 0) then
              Inr (RESULT_FAILURE,
                   say verbose (''Malformed range '' @ range_str @ '': '' @ right @
                                '' is not a valid IPv6 address'' @ [newline]))
            else
              (case cidr_to_in6addr L left_addr of
                 None \<Rightarrow> Inl Null_dereference
               | Some left_in6_addr \<Rightarrow>
              (case cidr_to_in6addr L right_addr of
                 None \<Rightarrow> Inl Null_dereference
               | Some right_in6_addr \<Rightarrow>
                 if compare_ipv6 left_in6_addr right_in6_addr \<le> 0 then
                   (if prefix_length > 0 then
                      (case sprintf_prefixed 44 left prefix_length of
                         Inl e \<Rightarrow> Inl e
                       | Inr left_pref_str \<Rightarrow>
                           (let left_addr_with_pref = cidr_from_str L left_pref_str;
                                left_net = cidr_addr_network L left_addr_with_pref in
                            if cidr_contains L left_net right_addr = 0
                            then Inr (RESULT_SUCCESS, [])
                            else Inr (RESULT_FAILURE, [])))
                    else Inr (RESULT_SUCCESS, []))
                 else
                   Inr (RESULT_FAILURE,
                        say verbose (''Malformed IPv6 range '' @ range_str @
                                     '': its first address is greater than the last'' @
                                     [newline])))))))"

section \<open>A reference instance of the address library\<close>

text \<open>
  The general theorems below hold for every library. The concrete runs need one: the
  instance of this section follows the behaviour the specification asks of the collaborator
  library (section 6). A handle is a null pointer (\<open>None\<close>) or an address with its protocol
  family and prefix length; equality compares family, address and prefix length and answers
  0 or -1; \<open>contains\<close> answers 0 when the families agree, the second prefix is at least as
  long as the first and the two addresses agree on the first prefix; the network and
  broadcast addresses clear and set the host bits; every query of a null handle reports
  failure. The parser accepts dotted-decimal IPv4 and colon-hexadecimal IPv6 text with at
  most one \<^verbatim>\<open>::\<close>, each with an optional \<^verbatim>\<open>/prefix\<close>, and nothing else. An IPv4 handle
  converts to \<^verbatim>\<open>struct in_addr\<close> and an IPv6 handle to \<^verbatim>\<open>struct in6_addr\<close>. \<^verbatim>\<open>struct in_addr\<close>
  holds the address in network byte order, so the integer a host reads from \<^verbatim>\<open>s_addr\<close>
  depends on the byte order of the host.
\<close>

datatype endian = Little_endian | Big_endian

definition htonl :: "endian \<Rightarrow> 32 word \<Rightarrow> 32 word" where
  \<comment> \<open>host to network byte order: the identity on a big-endian host, a byte swap on a
      little-endian one\<close>
  "htonl host x =
     (case host of
        Big_endian \<Rightarrow> x
      | Little_endian \<Rightarrow>
          push_bit 24 (x AND 0xFF) OR push_bit 16 (drop_bit 8 x AND 0xFF) OR
          push_bit 8 (drop_bit 16 x AND 0xFF) OR (drop_bit 24 x AND 0xFF))"

text \<open>
  The address of a handle is a number below \<open>2 ^ 32\<close> or \<open>2 ^ 128\<close>, its prefix length a
  number up to 32 or 128.
\<close>

record CIDR =
  proto :: int
  addr :: int
  pflen :: int

definition addr_bits :: "CIDR \<Rightarrow> int" where
  "addr_bits c = (if proto c = CIDR_IPV4 then 32 else 128)"

definition host_span :: "CIDR \<Rightarrow> int" where
  "host_span c = 2 ^ nat (addr_bits c - pflen c)"

definition ref_get_proto :: "CIDR option \<Rightarrow> int" where
  "ref_get_proto h = (case h of None \<Rightarrow> INVALID_PROTO | Some c \<Rightarrow> proto c)"

definition ref_get_pflen :: "CIDR option \<Rightarrow> int" where
  "ref_get_pflen h = (case h of None \<Rightarrow> - 1 | Some c \<Rightarrow> pflen c)"

definition ref_equals :: "CIDR option \<Rightarrow> CIDR option \<Rightarrow> int" where
  "ref_equals one two =
     (case (one, two) of
        (Some a, Some b) \<Rightarrow>
          if proto a = proto b \<and> addr a = addr b \<and> pflen a = pflen b then 0 else - 1
      | _ \<Rightarrow> - 1)"

definition ref_contains :: "CIDR option \<Rightarrow> CIDR option \<Rightarrow> int" where
  "ref_contains big little =
     (case (big, little) of
        (Some b, Some l) \<Rightarrow>
          if proto b = proto l \<and> pflen b \<le> pflen l \<and>
             addr b div host_span b = addr l div host_span b
          then 0 else - 1
      | _ \<Rightarrow> - 1)"

definition ref_addr_network :: "CIDR option \<Rightarrow> CIDR option" where
  "ref_addr_network h =
     (case h of
        None \<Rightarrow> None
      | Some c \<Rightarrow> Some (c\<lparr>addr := addr c - addr c mod host_span c\<rparr>))"

definition ref_addr_broadcast :: "CIDR option \<Rightarrow> CIDR option" where
  "ref_addr_broadcast h =
     (case h of
        None \<Rightarrow> None
      | Some c \<Rightarrow> Some (c\<lparr>addr := addr c - addr c mod host_span c + (host_span c - 1)\<rparr>))"

definition ref_to_inaddr :: "endian \<Rightarrow> CIDR option \<Rightarrow> in_addr option" where
  "ref_to_inaddr host h =
     (case h of
        None \<Rightarrow> None
      | Some c \<Rightarrow>
          if proto c = CIDR_IPV4 then Some \<lparr>s_addr = htonl host (of_int (addr c))\<rparr> else None)"

definition ref_to_in6addr :: "CIDR option \<Rightarrow> in6_addr option" where
  "ref_to_in6addr h =
     (case h of
        None \<Rightarrow> None
      | Some c \<Rightarrow>
          if proto c = CIDR_IPV6
          then Some \<lparr>s6_addr = (\<lambda>i. of_int (addr c div 256 ^ (15 - i)))\<rparr>
          else None)"

fun fields :: "char \<Rightarrow> string \<Rightarrow> string list" where
  "fields sep [] = [[]]"
| "fields sep (c # cs) =
     (if c = sep then [] # fields sep cs
      else (case fields sep cs of [] \<Rightarrow> [[c]] | w # ws \<Rightarrow> (c # w) # ws))"

definition digit_value :: "int \<Rightarrow> char \<Rightarrow> int option" where
  "digit_value base c =
     (let d = (if c \<in> set ''0123456789'' then of_char c - 48
               else if c \<in> set ''abcdef'' then of_char c - 87
               else if c \<in> set ''ABCDEF'' then of_char c - 55
               else 16)
      in if d < base then Some d else None)"

fun number_from :: "int \<Rightarrow> int \<Rightarrow> string \<Rightarrow> int option" where
  "number_from base acc [] = Some acc"
| "number_from base acc (c # cs) =
     (case digit_value base c of
        None \<Rightarrow> None
      | Some d \<Rightarrow> number_from base (acc * base + d) cs)"

definition number :: "int \<Rightarrow> nat \<Rightarrow> string \<Rightarrow> int option" where
  \<comment> \<open>a numeral of one to \<open>width\<close> digits in the given base\<close>
  "number base width s =
     (if s = [] \<or> length s > width then None else number_from base 0 s)"

fun pack :: "int \<Rightarrow> int \<Rightarrow> int option list \<Rightarrow> int option" where
  \<comment> \<open>the groups of an address, most significant first, each below \<open>radix\<close>\<close>
  "pack radix acc [] = Some acc"
| "pack radix acc (None # gs) = None"
| "pack radix acc (Some g # gs) = (if g < radix then pack radix (acc * radix + g) gs else None)"

definition parse_ipv4 :: "string \<Rightarrow> int option" where
  "parse_ipv4 s =
     (let octets = fields CHR ''.'' s
      in if length octets = 4 then pack 256 0 (map (number 10 3) octets) else None)"

fun break_double_colon :: "string \<Rightarrow> (string \<times> string) option" where
  "break_double_colon (a # b # cs) =
     (if a = CHR '':'' \<and> b = CHR '':'' then Some ([], cs)
      else (case break_double_colon (b # cs) of
              None \<Rightarrow> None
            | Some (h, t) \<Rightarrow> Some (a # h, t)))"
| "break_double_colon cs = None"

definition groups :: "string \<Rightarrow> int option list" where
  "groups s = (if s = [] then [] else map (number 16 4) (fields CHR '':'' s))"

definition parse_ipv6 :: "string \<Rightarrow> int option" where
  "parse_ipv6 s =
     (case break_double_colon s of
        None \<Rightarrow>
          (let gs = groups s in if length gs = 8 then pack 65536 0 gs else None)
      | Some (h, t) \<Rightarrow>
          (let hs = groups h; ts = groups t
           in if length hs + length ts \<le> 7
              then pack 65536 0 (hs @ replicate (8 - length hs - length ts) (Some 0) @ ts)
              else None))"

definition ref_from_str :: "string \<Rightarrow> CIDR option" where
  \<comment> \<open>Modelled from the spec: the parser of the collaborator library (section 6), "parse a
      textual address (optionally with /prefix) into a tagged value", reporting none for
      text it cannot parse; a bare address gets the full prefix length\<close>
  "ref_from_str s =
     (case fields CHR ''/'' s of
        [a] \<Rightarrow>
          if CHR '':'' \<in> set a
          then map_option (\<lambda>n. \<lparr>proto = CIDR_IPV6, addr = n, pflen = 128\<rparr>) (parse_ipv6 a)
          else map_option (\<lambda>n. \<lparr>proto = CIDR_IPV4, addr = n, pflen = 32\<rparr>) (parse_ipv4 a)
      | [a, p] \<Rightarrow>
          (case number 10 3 p of
             None \<Rightarrow> None
           | Some l \<Rightarrow>
               if CHR '':'' \<in> set a
               then (if l \<le> 128
                     then map_option (\<lambda>n. \<lparr>proto = CIDR_IPV6, addr = n, pflen = l\<rparr>) (parse_ipv6 a)
                     else None)
               else (if l \<le> 32
                     then map_option (\<lambda>n. \<lparr>proto = CIDR_IPV4, addr = n, pflen = l\<rparr>) (parse_ipv4 a)
                     else None))
      | _ \<Rightarrow> None)"

definition libcidr :: "endian \<Rightarrow> CIDR option cidr_lib" where
  \<comment> \<open>Modelled from the spec: the collaborator library of section 6, which is not part of
      the repository, on a host of the given byte order\<close>
  "libcidr host =
     \<lparr>cidr_from_str = ref_from_str,
      cidr_get_proto = ref_get_proto,
      cidr_get_pflen = ref_get_pflen,
      cidr_equals = ref_equals,
      cidr_contains = ref_contains,
      cidr_addr_network = ref_addr_network,
      cidr_addr_broadcast = ref_addr_broadcast,
      cidr_to_inaddr = ref_to_inaddr host,
      cidr_to_in6addr = ref_to_in6addr\<rparr>"

definition standard_blocks :: reserved_blocks where
  \<comment> \<open>Modelled from the spec: the reserved address block table of section 3, whose macros
      are in the missing header, with the well-known value of each block\<close>
  "standard_blocks =
     \<lparr>IPV4_MULTICAST = ''224.0.0.0/4'',
      IPV4_LOOPBACK = ''127.0.0.0/8'',
      IPV4_LINKLOCAL = ''169.254.0.0/16'',
      IPV4_RFC1918_A = ''10.0.0.0/8'',
      IPV4_RFC1918_B = ''172.16.0.0/12'',
      IPV4_RFC1918_C = ''192.168.0.0/16'',
      IPV4_UNSPECIFIED = ''0.0.0.0/0'',
      IPV4_THIS = ''0.0.0.0/8'',
      IPV4_LIMITED_BROADCAST = ''255.255.255.255/32'',
      IPV6_MULTICAST = ''ff00::/8'',
      IPV6_LINKLOCAL = ''fe80::/64'',
      IPV6_LOOPBACK = ''::1/128''\<rparr>"

section \<open>Notions the properties are stated with\<close>

definition dotted :: "nat \<Rightarrow> nat \<Rightarrow> nat \<Rightarrow> nat \<Rightarrow> string" where
  \<comment> \<open>four numbers in dotted-decimal notation, none with a leading zero\<close>
  "dotted a b c d = decimal a @ ''.'' @ decimal b @ ''.'' @ decimal c @ ''.'' @ decimal d"

definition occurs_at :: "string \<Rightarrow> string \<Rightarrow> nat \<Rightarrow> bool" where
  \<comment> \<open>\<open>w\<close> is the substring of \<open>s\<close> that starts at offset \<open>i\<close>\<close>
  "occurs_at w s i = (i + length w \<le> length s \<and> take (length w) (drop i s) = w)"

definition occurrences :: "string \<Rightarrow> string \<Rightarrow> nat" where
  \<comment> \<open>at how many offsets of \<open>s\<close> the substring \<open>w\<close> starts\<close>
  "occurrences w s = length (filter (occurs_at w s) [0 ..< Suc (length s)])"

primrec alphabet :: "rexp \<Rightarrow> char set" where
  \<comment> \<open>the characters an expression can consume\<close>
  "alphabet Fail = {}"
| "alphabet Eps = {}"
| "alphabet (Class cs) = set cs"
| "alphabet Dot = UNIV - {newline}"
| "alphabet (Cat r s) = alphabet r \<union> alphabet s"
| "alphabet (Or r s) = alphabet r \<union> alphabet s"
| "alphabet (Rep r) = alphabet r"

primrec be_value :: "nat \<Rightarrow> (nat \<Rightarrow> 8 word) \<Rightarrow> nat" where
  \<comment> \<open>the number the first \<open>n\<close> bytes of an array denote, most significant byte first\<close>
  "be_value 0 bytes = 0"
| "be_value (Suc n) bytes = be_value n bytes * 256 + unat (bytes n)"

definition in6_value :: "in6_addr \<Rightarrow> nat" where
  \<comment> \<open>the 128-bit number the sixteen bytes denote\<close>
  "in6_value a = be_value 16 (s6_addr a)"

definition endpoint4_ok :: "'c cidr_lib \<Rightarrow> string \<Rightarrow> bool" where
  \<comment> \<open>the per-endpoint test of \<open>is_ipv4_range\<close>\<close>
  "endpoint4_ok L e =
     (is_ipv4_single e \<noteq> 0 \<and> is_valid_address L (cidr_from_str L e) \<noteq> 0)"

definition endpoint6_ok :: "'c cidr_lib \<Rightarrow> string \<Rightarrow> bool" where
  \<comment> \<open>the per-endpoint test of \<open>is_ipv6_range\<close>\<close>
  "endpoint6_ok L e =
     (is_ipv6_single e \<noteq> 0 \<and> is_valid_address L (cidr_from_str L e) \<noteq> 0 \<and>
      duplicate_double_colons e = 0)"

definition ordered4 :: "'c cidr_lib \<Rightarrow> string \<Rightarrow> string \<Rightarrow> bool" where
  \<comment> \<open>the ordering test of \<open>is_ipv4_range\<close> passes\<close>
  "ordered4 L left right =
     (case cidr_to_inaddr L (cidr_from_str L left) of
        None \<Rightarrow> False
      | Some l \<Rightarrow>
          (case cidr_to_inaddr L (cidr_from_str L right) of
             None \<Rightarrow> False
           | Some r \<Rightarrow> s_addr l \<le> s_addr r))"

definition misordered4 :: "'c cidr_lib \<Rightarrow> string \<Rightarrow> string \<Rightarrow> bool" where
  \<comment> \<open>the ordering test of \<open>is_ipv4_range\<close> fails\<close>
  "misordered4 L left right =
     (case cidr_to_inaddr L (cidr_from_str L left) of
        None \<Rightarrow> False
      | Some l \<Rightarrow>
          (case cidr_to_inaddr L (cidr_from_str L right) of
             None \<Rightarrow> False
           | Some r \<Rightarrow> s_addr r < s_addr l))"

definition ordered6 :: "'c cidr_lib \<Rightarrow> string \<Rightarrow> string \<Rightarrow> bool" where
  \<comment> \<open>the ordering test of \<open>is_ipv6_range\<close> passes\<close>
  "ordered6 L left right =
     (case cidr_to_in6addr L (cidr_from_str L left) of
        None \<Rightarrow> False
      | Some l \<Rightarrow>
          (case cidr_to_in6addr L (cidr_from_str L right) of
             None \<Rightarrow> False
           | Some r \<Rightarrow> compare_ipv6 l r \<le> 0))"

definition misordered6 :: "'c cidr_lib \<Rightarrow> string \<Rightarrow> string \<Rightarrow> bool" where
  \<comment> \<open>the ordering test of \<open>is_ipv6_range\<close> fails\<close>
  "misordered6 L left right =
     (case cidr_to_in6addr L (cidr_from_str L left) of
        None \<Rightarrow> False
      | Some l \<Rightarrow>
          (case cidr_to_in6addr L (cidr_from_str L right) of
             None \<Rightarrow> False
           | Some r \<Rightarrow> 0 < compare_ipv6 l r))"

definition gate_message :: "string \<Rightarrow> string \<Rightarrow> string" where
  \<comment> \<open>the line a range validator writes when the format gate fails\<close>
  "gate_message family range_str =
     ''Malformed range '' @ range_str @ '': must be a pair of hyphen-separated '' @ family @
     '' addresses'' @ [newline]"

definition endpoint_message :: "string \<Rightarrow> string \<Rightarrow> string \<Rightarrow> string" where
  \<comment> \<open>the line a range validator writes for an endpoint that is no valid address\<close>
  "endpoint_message family range_str e =
     ''Malformed range '' @ range_str @ '': '' @ e @ '' is not a valid '' @ family @
     '' address'' @ [newline]"

definition order_message :: "string \<Rightarrow> string \<Rightarrow> string" where
  \<comment> \<open>the line a range validator writes when the first address is the greater one\<close>
  "order_message family range_str =
     ''Malformed '' @ family @ '' range '' @ range_str @
     '': its first address is greater than the last'' @ [newline]"

definition uncontained :: "'c cidr_lib \<Rightarrow> string \<Rightarrow> string \<Rightarrow> bool" where
  \<comment> \<open>the containment test of a range validator fails: \<open>printed\<close> is the left endpoint
      with the prefix length appended\<close>
  "uncontained L printed right =
     (cidr_contains L (cidr_addr_network L (cidr_from_str L printed)) (cidr_from_str L right)
        \<noteq> 0)"

section \<open>Facts about the matcher\<close>

lemma match_Fail [simp]: "match Fail s = False"
  by (induction s) simp_all

lemma match_Eps [simp]: "match Eps s = (s = [])"
  by (cases s) simp_all

lemma match_Class: "match (Class cs) s = (\<exists>c. s = [c] \<and> c \<in> set cs)"
  by (cases s) auto

lemma match_Dot: "match Dot s = (\<exists>c. s = [c] \<and> c \<noteq> newline)"
  by (cases s) auto

lemma match_Or: "match (Or r t) s = (match r s \<or> match t s)"
  by (induction s arbitrary: r t) simp_all

lemma match_Cat: "match (Cat r t) s = (\<exists>u v. s = u @ v \<and> match r u \<and> match t v)"
proof (induction s arbitrary: r t)
  case Nil
  show ?case by simp
next
  case (Cons c s)
  have split: "(\<exists>u v. c # s = u @ v \<and> match r u \<and> match t v) =
     ((nullable r \<and> match (deriv c t) s) \<or> (\<exists>u v. s = u @ v \<and> match (deriv c r) u \<and> match t v))"
    (is "?L = ?R")
  proof
    assume ?L
    then obtain u v where uv: "c # s = u @ v" "match r u" "match t v" by blast
    show ?R
    proof (cases u)
      case Nil
      with uv show ?thesis by auto
    next
      case (Cons a u')
      with uv have "s = u' @ v" "match (deriv c r) u'" by auto
      with uv show ?thesis by blast
    qed
  next
    assume ?R
    then show ?L
    proof
      assume "nullable r \<and> match (deriv c t) s"
      then have "c # s = [] @ (c # s)" "match r []" "match t (c # s)" by auto
      then show ?L by blast
    next
      assume "\<exists>u v. s = u @ v \<and> match (deriv c r) u \<and> match t v"
      then obtain u v where "s = u @ v" "match (deriv c r) u" "match t v" by blast
      then have "c # s = (c # u) @ v" "match r (c # u)" "match t v" by auto
      then show ?L by blast
    qed
  qed
  show ?case
    by (auto simp: match_Or Cons.IH split)
qed

lemma match_CatI: "match r u \<Longrightarrow> match t v \<Longrightarrow> match (Cat r t) (u @ v)"
  by (auto simp: match_Cat)

lemma match_Rep_Nil [simp]: "match (Rep r) [] = True"
  by simp

lemma match_Rep_Cons:
  "match (Rep r) (c # s) = (\<exists>u v. s = u @ v \<and> match r (c # u) \<and> match (Rep r) v)"
  by (simp add: match_Cat)

lemma match_Rep_Class: "match (Rep (Class cs)) s = (set s \<subseteq> set cs)"
proof (induction s)
  case Nil
  show ?case by simp
next
  case (Cons c s)
  have "match (Rep (Class cs)) (c # s) = (c \<in> set cs \<and> match (Rep (Class cs)) s)"
    by (auto simp: match_Cat simp del: match.simps(2) simp add: match.simps(2)[of "Rep _"] )
  then show ?case using Cons.IH by simp
qed

lemma match_Rep_Dot: "match (Rep Dot) s = (newline \<notin> set s)"
proof (induction s)
  case Nil
  show ?case by simp
next
  case (Cons c s)
  have "match (Rep Dot) (c # s) = (c \<noteq> newline \<and> match (Rep Dot) s)"
    by (auto simp: match_Cat)
  then show ?case using Cons.IH by auto
qed

lemma match_some_Class: "match (some_rx (Class cs)) s = (s \<noteq> [] \<and> set s \<subseteq> set cs)"
  by (cases s) (auto simp: some_rx_def match_Cat match_Class match_Rep_Class Cons_eq_append_conv)

lemma match_lit: "match (lit_rx w) s = (s = w)"
  by (induction w arbitrary: s) (auto simp: match_Cat match_Class)

lemma bex_upt_Suc: "(\<exists>j \<in> set [i ..< Suc n]. P j) = (\<exists>j. i \<le> j \<and> j \<le> n \<and> P j)"
  by (auto simp del: upt_Suc simp add: less_Suc_eq_le)

lemma pcre_exec_anchored:
  "(pcre_exec (anchored r) s \<ge> 0) = (match r s \<or> (\<exists>t. s = t @ [newline] \<and> match r t))"
  (is "?L = ?R")
proof -
  have "?L = (\<exists>j \<in> set [0 ..< Suc (length s)]. at_dollar s j \<and> match r (take j s))"
    by (simp add: pcre_exec_def anchored_def match_from_def match_between_def list_ex_iff
          del: upt_Suc) blast
  also have "\<dots> = (\<exists>j \<le> length s. at_dollar s j \<and> match r (take j s))"
    by (simp only: bex_upt_Suc) simp
  also have "\<dots> = ?R"
  proof
    assume "\<exists>j \<le> length s. at_dollar s j \<and> match r (take j s)"
    then obtain j where j: "j \<le> length s" "at_dollar s j" "match r (take j s)" by blast
    show ?R
    proof (cases "j = length s")
      case True
      with j show ?thesis by simp
    next
      case False
      with j have "Suc j = length s" "s ! j = newline" by (auto simp: at_dollar_def)
      then have "s = take j s @ [newline]"
        by (metis lessI take_Suc_conv_app_nth take_all_iff le_refl)
      with j show ?thesis by blast
    qed
  next
    assume ?R
    then show "\<exists>j \<le> length s. at_dollar s j \<and> match r (take j s)"
    proof
      assume "match r s"
      then have "length s \<le> length s \<and> at_dollar s (length s) \<and> match r (take (length s) s)"
        by (simp add: at_dollar_def)
      then show ?thesis by blast
    next
      assume "\<exists>t. s = t @ [newline] \<and> match r t"
      then obtain t where t: "s = t @ [newline]" "match r t" by blast
      then have "length t \<le> length s \<and> at_dollar s (length t) \<and> match r (take (length t) s)"
        by (simp add: at_dollar_def)
      then show ?thesis by blast
    qed
  qed
  finally show ?thesis .
qed

lemma pcre_exec_floating:
  "(pcre_exec (floating r) s \<ge> 0) = (\<exists>u t v. s = u @ t @ v \<and> match r t)"
  (is "?L = ?R")
proof -
  have "?L = (\<exists>i \<in> set [0 ..< Suc (length s)]. \<exists>j \<in> set [i ..< Suc (length s)].
                 match r (take (j - i) (drop i s)))"
    by (simp add: pcre_exec_def floating_def match_from_def match_between_def list_ex_iff
          del: upt_Suc)
  also have "\<dots> = (\<exists>i \<le> length s. \<exists>j. i \<le> j \<and> j \<le> length s \<and> match r (take (j - i) (drop i s)))"
    by (simp only: bex_upt_Suc) simp
  also have "\<dots> = ?R"
  proof
    assume "\<exists>i \<le> length s. \<exists>j. i \<le> j \<and> j \<le> length s \<and> match r (take (j - i) (drop i s))"
    then obtain i j where ij: "i \<le> j" "j \<le> length s" "match r (take (j - i) (drop i s))"
      by blast
    have "drop i s = take (j - i) (drop i s) @ drop (j - i) (drop i s)"
      by (simp only: append_take_drop_id)
    then have "s = take i s @ take (j - i) (drop i s) @ drop (j - i) (drop i s)"
      by (metis append_take_drop_id)
    with ij show ?R by blast
  next
    assume ?R
    then obtain u t v where utv: "s = u @ t @ v" "match r t" by blast
    then have "length u \<le> length s" "length u \<le> length u + length t"
      "length u + length t \<le> length s"
      "match r (take (length u + length t - length u) (drop (length u) s))"
      by auto
    then show "\<exists>i \<le> length s. \<exists>j. i \<le> j \<and> j \<le> length s \<and> match r (take (j - i) (drop i s))"
      by blast
  qed
  finally show ?thesis .
qed


lemma alphabet_deriv: "alphabet (deriv c r) \<subseteq> alphabet r"
  by (induction r) auto

lemma match_deriv_Fail: "c \<notin> alphabet r \<Longrightarrow> \<not> match (deriv c r) s"
proof (induction r arbitrary: s)
  case (Cat r1 r2)
  then show ?case by (auto simp: match_Cat match_Or)
next
  case (Or r1 r2)
  then show ?case by (auto simp: match_Or)
next
  case (Rep r)
  then show ?case by (auto simp: match_Cat)
qed auto

lemma match_alphabet: "match r s \<Longrightarrow> set s \<subseteq> alphabet r"
proof (induction s arbitrary: r)
  case Nil
  show ?case by simp
next
  case (Cons c s)
  from Cons.prems have m: "match (deriv c r) s" by simp
  then have "c \<in> alphabet r" using match_deriv_Fail by blast
  moreover from m have "set s \<subseteq> alphabet (deriv c r)" by (rule Cons.IH)
  ultimately show ?case using alphabet_deriv by fastforce
qed

section \<open>The IPv4 formats\<close>

lemma digit_cases: "d < 10 \<Longrightarrow> d \<in> {0, 1, 2, 3, 4, 5, 6, 7, 8, 9::nat}"
  by auto

lemma digit_char_digit: "d < 10 \<Longrightarrow> digit_char d \<in> set ''0123456789''"
  by (drule digit_cases) (auto simp: digit_char_def)

lemma digit_char_nonzero: "0 < d \<Longrightarrow> d < 10 \<Longrightarrow> digit_char d \<in> set ''123456789''"
  using digit_cases[of d] by (auto simp: digit_char_def)

lemma decimal_digits: "set (decimal n) \<subseteq> set ''0123456789''"
proof (induction n rule: decimal.induct)
  case (1 n)
  show ?case
  proof (cases "n < 10")
    case True
    then show ?thesis using digit_char_digit[of n] by (subst decimal.simps) simp
  next
    case False
    have "n mod 10 < 10" by simp
    then have "digit_char (n mod 10) \<in> set ''0123456789''" by (rule digit_char_digit)
    with False 1 show ?thesis by (subst decimal.simps) simp
  qed
qed

lemma decimal_zero: "decimal 0 = ''0''"
  by (subst decimal.simps) (simp add: digit_char_def)

lemma decimal_shape:
  "0 < n \<Longrightarrow> \<exists>d ds. decimal n = d # ds \<and> d \<in> set ''123456789'' \<and> set ds \<subseteq> set ''0123456789''"
proof (induction n rule: decimal.induct)
  case (1 n)
  show ?case
  proof (cases "n < 10")
    case True
    with "1.prems" have "digit_char n \<in> set ''123456789''" by (intro digit_char_nonzero)
    moreover from True have "decimal n = [digit_char n]" by (subst decimal.simps) simp
    ultimately show ?thesis by simp
  next
    case False
    then have "0 < n div 10" by simp
    with False 1 obtain d ds where
      h: "decimal (n div 10) = d # ds" "d \<in> set ''123456789''" "set ds \<subseteq> set ''0123456789''"
      by blast
    have "n mod 10 < 10" by simp
    then have l: "digit_char (n mod 10) \<in> set ''0123456789''" by (rule digit_char_digit)
    from False have "decimal n = decimal (n div 10) @ [digit_char (n mod 10)]"
      by (subst decimal.simps) simp
    with h have "decimal n = d # (ds @ [digit_char (n mod 10)])" by simp
    moreover from h l have "set (ds @ [digit_char (n mod 10)]) \<subseteq> set ''0123456789''" by simp
    ultimately show ?thesis using h(2) by blast
  qed
qed

lemma length_decimal: "n < 1000 \<Longrightarrow> length (decimal n) \<le> 3"
  by (subst decimal.simps, simp, subst decimal.simps, simp, subst decimal.simps, simp)

lemma match_upto_Class: "match (upto_rx k (Class cs)) s = (length s \<le> k \<and> set s \<subseteq> set cs)"
proof (induction k arbitrary: s)
  case 0
  show ?case by auto
next
  case (Suc k)
  show ?case
    by (cases s) (auto simp: match_Or match_Cat match_Class Suc.IH Cons_eq_append_conv)
qed

lemma match_octet_decimal:
  assumes "n < 1000"
  shows "match octet (decimal n)"
proof (cases "n = 0")
  case True
  then show ?thesis by (simp add: decimal_zero octet_def match_Or)
next
  case False
  then obtain d ds where
    h: "decimal n = d # ds" "d \<in> set ''123456789''" "set ds \<subseteq> set ''0123456789''"
    using decimal_shape[of n] by auto
  from assms h(1) have "length ds \<le> 2" using length_decimal[of n] by simp
  with h(3) have "match (upto_rx 2 digit) ds"
    by (simp add: digit_def match_upto_Class)
  moreover from h(2) have "match nonzero [d]"
    by (simp add: nonzero_def)
  ultimately have "match (Cat nonzero (upto_rx 2 digit)) ([d] @ ds)"
    by (rule match_CatI[rotated])
  with h(1) show ?thesis by (simp add: octet_def match_Or)
qed

lemma match_prefix_decimal: "match (Or (Cat nonzero (Rep digit)) (Class ''0'')) (decimal n)"
proof (cases "n = 0")
  case True
  then show ?thesis by (simp add: decimal_zero match_Or)
next
  case False
  then obtain d ds where
    h: "decimal n = d # ds" "d \<in> set ''123456789''" "set ds \<subseteq> set ''0123456789''"
    using decimal_shape[of n] by auto
  from h(3) have "match (Rep digit) ds"
    by (simp add: digit_def match_Rep_Class)
  moreover from h(2) have "match nonzero [d]"
    by (simp add: nonzero_def)
  ultimately have "match (Cat nonzero (Rep digit)) ([d] @ ds)"
    by (rule match_CatI[rotated])
  with h(1) show ?thesis by (simp add: match_Or)
qed

lemma match_dot: "match (Class ''.'') ''.''"
  by simp

lemma match_octet_dot: "n < 1000 \<Longrightarrow> match (Cat octet (Class ''.'')) (decimal n @ ''.'')"
  by (intro match_CatI match_octet_decimal match_dot)

lemma match_three_octets:
  assumes "a < 1000" "b < 1000" "c < 1000"
  shows "match (times_rx 3 (Cat octet (Class ''.'')))
           (decimal a @ ''.'' @ decimal b @ ''.'' @ decimal c @ ''.'')"
proof -
  have "match (times_rx 3 (Cat octet (Class ''.'')))
          ((decimal a @ ''.'') @ (decimal b @ ''.'') @ (decimal c @ ''.'') @ [])"
    unfolding numeral_3_eq_3 times_rx.simps
    by (intro match_CatI match_octet_dot assms) simp
  then show ?thesis by simp
qed

lemma match_single_dotted:
  assumes "a < 1000" "b < 1000" "c < 1000" "d < 1000"
  shows "match (body ipv4_single_regex) (dotted a b c d)"
proof -
  have "match (Cat (times_rx 3 (Cat octet (Class ''.''))) octet)
          ((decimal a @ ''.'' @ decimal b @ ''.'' @ decimal c @ ''.'') @ decimal d)"
    by (intro match_CatI match_three_octets match_octet_decimal assms)
  then show ?thesis by (simp add: ipv4_single_regex_def anchored_def dotted_def)
qed

lemma match_cidr_dotted:
  assumes "a < 1000" "b < 1000" "c < 1000" "d < 1000"
  shows "match (body ipv4_cidr_regex) (dotted a b c d @ ''/'' @ decimal p)"
proof -
  have "match (Class ''/'') ''/''" by simp
  then have "match (Cat (times_rx 3 (Cat octet (Class ''.'')))
                (Cat octet (Cat (Class ''/'') (Or (Cat nonzero (Rep digit)) (Class ''0'')))))
          ((decimal a @ ''.'' @ decimal b @ ''.'' @ decimal c @ ''.'') @ decimal d @ ''/'' @ decimal p)"
    by (intro match_CatI match_three_octets match_octet_decimal match_prefix_decimal assms)
  then show ?thesis by (simp add: ipv4_cidr_regex_def anchored_def dotted_def)
qed

lemma alphabet_single: "alphabet (body ipv4_single_regex) \<subseteq> set ''0123456789.''"
  by (simp add: ipv4_single_regex_def anchored_def octet_def nonzero_def digit_def
        numeral_3_eq_3 numeral_2_eq_2)

lemma match_cidr_slash:
  assumes "match (body ipv4_cidr_regex) s"
  shows "CHR ''/'' \<in> set s"
proof -
  let ?tail = "Or (Cat nonzero (Rep digit)) (Class ''0'')"
  from assms have "match (Cat (times_rx 3 (Cat octet (Class ''.'')))
                     (Cat octet (Cat (Class ''/'') ?tail))) s"
    by (simp add: ipv4_cidr_regex_def anchored_def)
  then obtain u v where uv: "s = u @ v" "match (Cat octet (Cat (Class ''/'') ?tail)) v"
    unfolding match_Cat[of "times_rx 3 (Cat octet (Class ''.''))"] by blast
  from uv(2) obtain w x where wx: "v = w @ x" "match (Cat (Class ''/'') ?tail) x"
    unfolding match_Cat[of octet] by blast
  from wx(2) obtain y z where yz: "x = y @ z" "match (Class ''/'') y"
    unfolding match_Cat[of "Class ''/''"] by blast
  from yz(2) have "y = ''/''" by (simp add: match_Class)
  with uv(1) wx(1) yz(1) show ?thesis by simp
qed

lemma set_dotted: "set (dotted a b c d) \<subseteq> set ''0123456789.''"
proof -
  have D: "set ''0123456789'' \<subseteq> set ''0123456789.''" by simp
  have P: "set ''.'' \<subseteq> set ''0123456789.''" by simp
  note A = order_trans[OF decimal_digits D]
  show ?thesis unfolding dotted_def set_append by (intro Un_least A P)
qed

lemma set_dotted_slash:
  "set (dotted a b c d @ ''/'' @ decimal p) \<subseteq> set ''0123456789./''"
proof -
  have D: "set ''0123456789'' \<subseteq> set ''0123456789./''" by simp
  have E: "set ''0123456789.'' \<subseteq> set ''0123456789./''" by simp
  have P: "set ''/'' \<subseteq> set ''0123456789./''" by simp
  note A = order_trans[OF decimal_digits D] and B = order_trans[OF set_dotted E]
  show ?thesis unfolding set_append by (intro Un_least A B P)
qed

lemma regex_matches_anchored:
  "(regex_matches (anchored r) s = RESULT_SUCCESS) =
     (match r s \<or> (\<exists>t. s = t @ [newline] \<and> match r t))"
  using pcre_exec_anchored[of r s]
  by (simp add: regex_matches_def RESULT_SUCCESS_def RESULT_FAILURE_def Let_def)

lemma regex_matches_cases:
  "regex_matches p s = RESULT_SUCCESS \<or> regex_matches p s = RESULT_FAILURE"
  by (simp add: regex_matches_def Let_def)

lemma success_not_failure: "RESULT_SUCCESS \<noteq> RESULT_FAILURE"
  by (simp add: RESULT_SUCCESS_def RESULT_FAILURE_def)

text \<open>
  C3. On every dotted-decimal string of four numbers from 0 to 255 written without leading
  zeros, \<open>is_ipv4_single\<close> succeeds and \<open>is_ipv4_cidr\<close> fails; with a slash and a prefix
  length from 0 to 32 (no leading zeros) appended, \<open>is_ipv4_cidr\<close> succeeds and
  \<open>is_ipv4_single\<close> fails.
\<close>

theorem ipv4_format_dotted:
  assumes "a \<le> 255" "b \<le> 255" "c \<le> 255" "d \<le> 255" "p \<le> 32"
  shows "is_ipv4_single (dotted a b c d) = RESULT_SUCCESS \<and>
         is_ipv4_cidr (dotted a b c d) = RESULT_FAILURE \<and>
         is_ipv4_cidr (dotted a b c d @ ''/'' @ decimal p) = RESULT_SUCCESS \<and>
         is_ipv4_single (dotted a b c d @ ''/'' @ decimal p) = RESULT_FAILURE"
proof -
  from assms have lt: "a < 1000" "b < 1000" "c < 1000" "d < 1000" by simp_all
  have anch: "ipv4_single_regex = anchored (body ipv4_single_regex)"
    "ipv4_cidr_regex = anchored (body ipv4_cidr_regex)"
    by (simp_all add: ipv4_single_regex_def ipv4_cidr_regex_def anchored_def)
  have dset: "set (dotted a b c d) \<subseteq> set ''0123456789.''" by (rule set_dotted)
  have 1: "is_ipv4_single (dotted a b c d) = RESULT_SUCCESS"
    unfolding is_ipv4_single_def
    using match_single_dotted[OF lt]
    by (subst anch(1), simp only: regex_matches_anchored) simp
  have 3: "is_ipv4_cidr (dotted a b c d @ ''/'' @ decimal p) = RESULT_SUCCESS"
    unfolding is_ipv4_cidr_def
    using match_cidr_dotted[OF lt, of p]
    by (subst anch(2), simp only: regex_matches_anchored) simp
  have "\<not> (match (body ipv4_cidr_regex) (dotted a b c d) \<or>
            (\<exists>t. dotted a b c d = t @ [newline] \<and> match (body ipv4_cidr_regex) t))"
  proof
    assume "match (body ipv4_cidr_regex) (dotted a b c d) \<or>
            (\<exists>t. dotted a b c d = t @ [newline] \<and> match (body ipv4_cidr_regex) t)"
    then have "CHR ''/'' \<in> set (dotted a b c d)"
    proof
      assume "match (body ipv4_cidr_regex) (dotted a b c d)"
      then show ?thesis by (rule match_cidr_slash)
    next
      assume "\<exists>t. dotted a b c d = t @ [newline] \<and> match (body ipv4_cidr_regex) t"
      then obtain t where t: "dotted a b c d = t @ [newline]" "match (body ipv4_cidr_regex) t"
        by blast
      from t(2) have "CHR ''/'' \<in> set t" by (rule match_cidr_slash)
      with t(1) show ?thesis by simp
    qed
    with dset have "CHR ''/'' \<in> set ''0123456789.''" by (rule subsetD)
    then show False by simp
  qed
  then have "regex_matches (anchored (body ipv4_cidr_regex)) (dotted a b c d) \<noteq> RESULT_SUCCESS"
    by (simp only: regex_matches_anchored) simp
  then have 2: "is_ipv4_cidr (dotted a b c d) = RESULT_FAILURE"
    unfolding is_ipv4_cidr_def
    using regex_matches_cases[of ipv4_cidr_regex "dotted a b c d"] anch(2) by auto
  let ?s = "dotted a b c d @ ''/'' @ decimal p"
  have "\<not> (match (body ipv4_single_regex) ?s \<or>
            (\<exists>t. ?s = t @ [newline] \<and> match (body ipv4_single_regex) t))"
  proof
    assume "match (body ipv4_single_regex) ?s \<or>
            (\<exists>t. ?s = t @ [newline] \<and> match (body ipv4_single_regex) t)"
    then show False
    proof
      assume "match (body ipv4_single_regex) ?s"
      then have "set ?s \<subseteq> set ''0123456789.''"
        using match_alphabet alphabet_single by blast
      moreover have "CHR ''/'' \<in> set ?s" by simp
      ultimately have "CHR ''/'' \<in> set ''0123456789.''" by (rule subsetD)
      then show False by simp
    next
      assume "\<exists>t. ?s = t @ [newline] \<and> match (body ipv4_single_regex) t"
      then obtain t where t: "?s = t @ [newline]" by blast
      have "newline \<in> set ?s" unfolding t by simp
      with set_dotted_slash have "newline \<in> set ''0123456789./''" by (rule subsetD)
      then show False by (simp add: newline_def)
    qed
  qed
  then have "regex_matches (anchored (body ipv4_single_regex)) ?s \<noteq> RESULT_SUCCESS"
    by (simp only: regex_matches_anchored) simp
  then have 4: "is_ipv4_single ?s = RESULT_FAILURE"
    unfolding is_ipv4_single_def
    using regex_matches_cases[of ipv4_single_regex ?s] anch(1) by auto
  from 1 2 3 4 show ?thesis by simp
qed

theorem ipv4_format_dotted_witness:
  "is_ipv4_single ''192.0.2.1'' = RESULT_SUCCESS \<and>
   is_ipv4_cidr ''192.0.2.1'' = RESULT_FAILURE \<and>
   is_ipv4_cidr ''192.0.2.1/24'' = RESULT_SUCCESS \<and>
   is_ipv4_single ''192.0.2.1/24'' = RESULT_FAILURE"
proof -
  have e: "dotted 192 0 2 1 = ''192.0.2.1''" "decimal 24 = ''24''"
    by code_simp+
  show ?thesis
    using ipv4_format_dotted[of 192 0 2 1 24] unfolding e by simp
qed



section \<open>Duplicate double colons\<close>

lemma occurs_at_iff: "occurs_at w s i = (\<exists>u x. s = u @ w @ x \<and> length u = i)"
proof
  assume o: "occurs_at w s i"
  then have "drop i s = take (length w) (drop i s) @ drop (length w) (drop i s)"
    by (simp only: append_take_drop_id)
  with o have "drop i s = w @ drop (length w) (drop i s)" by (simp add: occurs_at_def)
  then have "s = take i s @ w @ drop (length w) (drop i s)"
    by (metis append_take_drop_id)
  moreover from o have "length (take i s) = i" by (simp add: occurs_at_def)
  ultimately show "\<exists>u x. s = u @ w @ x \<and> length u = i" by blast
next
  assume "\<exists>u x. s = u @ w @ x \<and> length u = i"
  then show "occurs_at w s i" by (auto simp: occurs_at_def)
qed

lemma match_duplicate_body:
  "match (body duplicate_double_colons_regex) t =
     (\<exists>x v. t = x @ ''::'' @ v @ ''::'' \<and> newline \<notin> set x \<and> newline \<notin> set v)"
  by (simp add: duplicate_double_colons_regex_def floating_def match_Cat[of "Rep Dot"]
        match_Cat[of "lit_rx _"] match_Rep_Dot match_lit del: lit_rx.simps) blast

lemma regex_matches_floating:
  "(regex_matches (floating r) s = RESULT_SUCCESS) = (\<exists>u t v. s = u @ t @ v \<and> match r t)"
  using pcre_exec_floating[of r s]
  by (simp add: regex_matches_def RESULT_SUCCESS_def RESULT_FAILURE_def Let_def)

lemma duplicate_double_colons_iff:
  "(duplicate_double_colons s = RESULT_SUCCESS) =
     (\<exists>u v w. s = u @ ''::'' @ v @ ''::'' @ w \<and> newline \<notin> set v)"
  (is "?L = ?R")
proof -
  have f: "duplicate_double_colons_regex = floating (body duplicate_double_colons_regex)"
    by (simp add: duplicate_double_colons_regex_def floating_def)
  have "?L = (\<exists>u t w. s = u @ t @ w \<and> match (body duplicate_double_colons_regex) t)"
    unfolding duplicate_double_colons_def by (subst f) (rule regex_matches_floating)
  also have "\<dots> = ?R"
  proof
    assume "\<exists>u t w. s = u @ t @ w \<and> match (body duplicate_double_colons_regex) t"
    then obtain u t w x v where
      "s = u @ t @ w" "t = x @ ''::'' @ v @ ''::''" "newline \<notin> set v"
      unfolding match_duplicate_body by blast
    then have "s = (u @ x) @ ''::'' @ v @ ''::'' @ w \<and> newline \<notin> set v" by simp
    then show ?R by blast
  next
    assume ?R
    then obtain u v w where h: "s = u @ ''::'' @ v @ ''::'' @ w" "newline \<notin> set v" by blast
    have "match (body duplicate_double_colons_regex) ([] @ ''::'' @ v @ ''::'')"
      unfolding match_duplicate_body using h(2) by fastforce
    moreover from h(1) have "s = u @ ([] @ ''::'' @ v @ ''::'') @ w" by simp
    ultimately show "\<exists>u t w. s = u @ t @ w \<and> match (body duplicate_double_colons_regex) t"
      by blast
  qed
  finally show ?thesis .
qed

text \<open>
  C4 (amended). On a string with no line feed, \<open>duplicate_double_colons\<close> succeeds exactly
  when \<^verbatim>\<open>::\<close> starts at two offsets that are at least two apart, that is, when the string
  holds two occurrences of \<^verbatim>\<open>::\<close> that do not overlap; it succeeds on \<^verbatim>\<open>2001::db8::1\<close> and
  fails on \<^verbatim>\<open>2001:db8::1\<close>.
\<close>

theorem duplicate_double_colons_disjoint:
  "(newline \<notin> set s \<longrightarrow>
      (duplicate_double_colons s = RESULT_SUCCESS) =
        (\<exists>i j. occurs_at ''::'' s i \<and> occurs_at ''::'' s j \<and> i + 2 \<le> j)) \<and>
   duplicate_double_colons ''2001::db8::1'' = RESULT_SUCCESS \<and>
   duplicate_double_colons ''2001:db8::1'' = RESULT_FAILURE"
proof (intro conjI impI)
  assume nl: "newline \<notin> set s"
  show "(duplicate_double_colons s = RESULT_SUCCESS) =
          (\<exists>i j. occurs_at ''::'' s i \<and> occurs_at ''::'' s j \<and> i + 2 \<le> j)"
    (is "?L = ?R")
  proof
    assume ?L
    then obtain u v w where h: "s = u @ ''::'' @ v @ ''::'' @ w"
      unfolding duplicate_double_colons_iff by blast
    have "occurs_at ''::'' s (length u)"
      unfolding occurs_at_iff using h by blast
    moreover have "occurs_at ''::'' s (length (u @ ''::'' @ v))"
      unfolding occurs_at_iff
    proof (intro exI conjI)
      show "s = (u @ ''::'' @ v) @ ''::'' @ w" using h by simp
    qed simp
    moreover have "length u + 2 \<le> length (u @ ''::'' @ v)" by simp
    ultimately show ?R by blast
  next
    assume ?R
    then obtain i j where ij: "occurs_at ''::'' s i" "occurs_at ''::'' s j" "i + 2 \<le> j"
      by blast
    from ij(1) obtain u x where ux: "s = u @ ''::'' @ x" "length u = i"
      unfolding occurs_at_iff by blast
    from ij(2) obtain u' x' where ux': "s = u' @ ''::'' @ x'" "length u' = j"
      unfolding occurs_at_iff by blast
    have "length (u @ ''::'') \<le> length u'" using ux(2) ux'(2) ij(3) by simp
    moreover have "(u @ ''::'') @ x = u' @ (''::'' @ x')" using ux(1) ux'(1) by simp
    ultimately obtain v where v: "u' = (u @ ''::'') @ v"
      by (metis append_eq_append_conv_if append_take_drop_id)
    with ux'(1) have s: "s = u @ ''::'' @ v @ ''::'' @ x'" by simp
    with nl have "newline \<notin> set v" by auto
    with s show ?L unfolding duplicate_double_colons_iff by blast
  qed
next
  show "duplicate_double_colons ''2001::db8::1'' = RESULT_SUCCESS" by code_simp
next
  show "duplicate_double_colons ''2001:db8::1'' = RESULT_FAILURE" by code_simp
qed

theorem duplicate_double_colons_disjoint_witness:
  "newline \<notin> set ''1::2::3'' \<and>
   duplicate_double_colons ''1::2::3'' = RESULT_SUCCESS \<and>
   occurs_at ''::'' ''1::2::3'' 1 \<and> occurs_at ''::'' ''1::2::3'' 4"
proof -
  have nl: "newline \<notin> set ''1::2::3''" by (simp add: newline_def)
  have o: "occurs_at ''::'' ''1::2::3'' 1" "occurs_at ''::'' ''1::2::3'' 4"
    by (simp_all add: occurs_at_def)
  then have "\<exists>i j. occurs_at ''::'' ''1::2::3'' i \<and> occurs_at ''::'' ''1::2::3'' j \<and> i + 2 \<le> j"
    by (intro exI[of _ 1] exI[of _ 4]) simp
  with nl duplicate_double_colons_disjoint[of "''1::2::3''"]
  have "duplicate_double_colons ''1::2::3'' = RESULT_SUCCESS" by blast
  with nl o show ?thesis by blast
qed

theorem duplicate_double_colons_counterexample:
  "1 < occurrences ''::'' ''2001:db8:::1'' \<and>
   duplicate_double_colons ''2001:db8:::1'' = RESULT_FAILURE"
  by code_simp

lemma duplicate_double_colons_line_feed:
  "duplicate_double_colons (''::'' @ [newline] @ ''::'') = RESULT_FAILURE"
  by code_simp

section \<open>The semantic classifiers\<close>

lemmas result_defs = RESULT_SUCCESS_def RESULT_FAILURE_def
lemmas proto_defs = INVALID_PROTO_def CIDR_IPV4_def CIDR_IPV6_def
lemmas libcidr_defs = libcidr_def ref_get_proto_def ref_get_pflen_def ref_equals_def
  ref_contains_def ref_addr_network_def ref_addr_broadcast_def

text \<open>
  C1 (amended). \<open>is_valid_intf_address\<close> succeeds exactly when the address is not an IPv4
  broadcast address, not IPv4 multicast, not IPv6 multicast, not IPv4 loopback unless
  loopback is allowed, not equal to the IPv6 loopback address, not equal to the IPv4
  unspecified address, not inside the IPv4 "this network" block, not equal to the IPv4
  limited-broadcast address, a host address, and its literal has the CIDR format (an address
  followed by a prefix length). So it rejects the IPv4 broadcast, either multicast, the IPv4
  unspecified address and the IPv6 loopback address whatever the flag is, and the flag
  matters to IPv4 loopback addresses only.
\<close>

theorem is_valid_intf_address_gate:
  "((is_valid_intf_address L T address address_str allow_loopback = RESULT_SUCCESS) =
      (is_ipv4_broadcast L address = RESULT_FAILURE \<and>
       is_ipv4_multicast L T address = RESULT_FAILURE \<and>
       is_ipv6_multicast L T address = RESULT_FAILURE \<and>
       (is_ipv4_loopback L T address = RESULT_FAILURE \<or> allow_loopback = LOOPBACK_ALLOWED) \<and>
       cidr_equals L address (cidr_from_str L (IPV6_LOOPBACK T)) \<noteq> 0 \<and>
       cidr_equals L address (cidr_from_str L (IPV4_UNSPECIFIED T)) \<noteq> 0 \<and>
       cidr_contains L (cidr_from_str L (IPV4_THIS T)) address \<noteq> 0 \<and>
       cidr_equals L address (cidr_from_str L (IPV4_LIMITED_BROADCAST T)) \<noteq> 0 \<and>
       is_any_host L address = RESULT_SUCCESS \<and>
       is_any_cidr address_str = RESULT_SUCCESS)) \<and>
   (is_valid_intf_address L T address address_str allow_loopback = RESULT_SUCCESS \<or>
    is_valid_intf_address L T address address_str allow_loopback = RESULT_FAILURE) \<and>
   (is_ipv4_broadcast L address = RESULT_SUCCESS \<or>
    is_ipv4_multicast L T address = RESULT_SUCCESS \<or>
    is_ipv6_multicast L T address = RESULT_SUCCESS \<or>
    cidr_equals L address (cidr_from_str L (IPV4_UNSPECIFIED T)) = 0 \<or>
    cidr_equals L address (cidr_from_str L (IPV6_LOOPBACK T)) = 0 \<longrightarrow>
      is_valid_intf_address L T address address_str allow_loopback = RESULT_FAILURE) \<and>
   (is_ipv4_loopback L T address = RESULT_SUCCESS \<longrightarrow>
      (is_valid_intf_address L T address address_str allow_loopback = RESULT_SUCCESS) =
        (allow_loopback = LOOPBACK_ALLOWED \<and>
         is_valid_intf_address L T address address_str LOOPBACK_ALLOWED = RESULT_SUCCESS)) \<and>
   (is_ipv4_loopback L T address = RESULT_FAILURE \<longrightarrow>
      is_valid_intf_address L T address address_str allow_loopback =
      is_valid_intf_address L T address address_str LOOPBACK_ALLOWED)"
  by (auto simp: is_valid_intf_address_def result_defs)

theorem is_valid_intf_address_gate_witness:
  "is_valid_intf_address (libcidr Little_endian) standard_blocks
     (ref_from_str ''192.0.2.1/24'') ''192.0.2.1/24'' 0 = RESULT_SUCCESS \<and>
   is_ipv4_broadcast (libcidr Little_endian) (ref_from_str ''192.0.2.1/24'') = RESULT_FAILURE \<and>
   is_any_cidr ''192.0.2.1/24'' = RESULT_SUCCESS \<and>
   is_ipv4_broadcast (libcidr Little_endian) (ref_from_str ''192.0.2.255/24'') = RESULT_SUCCESS \<and>
   is_valid_intf_address (libcidr Little_endian) standard_blocks
     (ref_from_str ''192.0.2.255/24'') ''192.0.2.255/24'' LOOPBACK_ALLOWED = RESULT_FAILURE \<and>
   is_ipv4_loopback (libcidr Little_endian) standard_blocks (ref_from_str ''127.0.0.1/8'')
     = RESULT_SUCCESS \<and>
   is_valid_intf_address (libcidr Little_endian) standard_blocks
     (ref_from_str ''127.0.0.1/8'') ''127.0.0.1/8'' LOOPBACK_ALLOWED = RESULT_SUCCESS \<and>
   is_valid_intf_address (libcidr Little_endian) standard_blocks
     (ref_from_str ''127.0.0.1/8'') ''127.0.0.1/8'' 0 = RESULT_FAILURE"
proof -
  let ?L = "libcidr Little_endian"
  have ok: "is_valid_intf_address ?L standard_blocks
              (ref_from_str ''192.0.2.1/24'') ''192.0.2.1/24'' 0 = RESULT_SUCCESS"
    by code_simp
  have bc: "is_ipv4_broadcast ?L (ref_from_str ''192.0.2.255/24'') = RESULT_SUCCESS"
    by code_simp
  have lo: "is_ipv4_loopback ?L standard_blocks (ref_from_str ''127.0.0.1/8'') = RESULT_SUCCESS"
    by code_simp
  have la: "is_valid_intf_address ?L standard_blocks
              (ref_from_str ''127.0.0.1/8'') ''127.0.0.1/8'' LOOPBACK_ALLOWED = RESULT_SUCCESS"
    by code_simp
  have z: "(0::int) \<noteq> LOOPBACK_ALLOWED" by (simp add: LOOPBACK_ALLOWED_def)
  note g = is_valid_intf_address_gate[of ?L standard_blocks]
  from ok g[of "ref_from_str ''192.0.2.1/24''" "''192.0.2.1/24''" 0]
  have 1: "is_ipv4_broadcast ?L (ref_from_str ''192.0.2.1/24'') = RESULT_FAILURE"
    "is_any_cidr ''192.0.2.1/24'' = RESULT_SUCCESS"
    by blast+
  from bc g[of "ref_from_str ''192.0.2.255/24''" "''192.0.2.255/24''" LOOPBACK_ALLOWED]
  have 2: "is_valid_intf_address ?L standard_blocks
             (ref_from_str ''192.0.2.255/24'') ''192.0.2.255/24'' LOOPBACK_ALLOWED = RESULT_FAILURE"
    by blast
  from lo z g[of "ref_from_str ''127.0.0.1/8''" "''127.0.0.1/8''" 0]
  have 3: "is_valid_intf_address ?L standard_blocks
             (ref_from_str ''127.0.0.1/8'') ''127.0.0.1/8'' 0 = RESULT_FAILURE"
    by blast
  from ok 1 bc 2 lo la 3 show ?thesis by blast
qed

theorem is_valid_intf_address_single_counterexample:
  "is_ipv4_broadcast (libcidr Little_endian) (ref_from_str ''192.0.2.1'') = RESULT_FAILURE \<and>
   is_ipv4_multicast (libcidr Little_endian) standard_blocks (ref_from_str ''192.0.2.1'')
     = RESULT_FAILURE \<and>
   is_ipv6_multicast (libcidr Little_endian) standard_blocks (ref_from_str ''192.0.2.1'')
     = RESULT_FAILURE \<and>
   is_ipv4_loopback (libcidr Little_endian) standard_blocks (ref_from_str ''192.0.2.1'')
     = RESULT_FAILURE \<and>
   cidr_equals (libcidr Little_endian) (ref_from_str ''192.0.2.1'')
     (ref_from_str (IPV6_LOOPBACK standard_blocks)) \<noteq> 0 \<and>
   cidr_equals (libcidr Little_endian) (ref_from_str ''192.0.2.1'')
     (ref_from_str (IPV4_UNSPECIFIED standard_blocks)) \<noteq> 0 \<and>
   cidr_contains (libcidr Little_endian) (ref_from_str (IPV4_THIS standard_blocks))
     (ref_from_str ''192.0.2.1'') \<noteq> 0 \<and>
   cidr_equals (libcidr Little_endian) (ref_from_str ''192.0.2.1'')
     (ref_from_str (IPV4_LIMITED_BROADCAST standard_blocks)) \<noteq> 0 \<and>
   is_any_host (libcidr Little_endian) (ref_from_str ''192.0.2.1'') = RESULT_SUCCESS \<and>
   is_any_single ''192.0.2.1'' = RESULT_SUCCESS \<and>
   is_valid_intf_address (libcidr Little_endian) standard_blocks
     (ref_from_str ''192.0.2.1'') ''192.0.2.1'' LOOPBACK_ALLOWED = RESULT_FAILURE"
  by code_simp

text \<open>
  The table of the specification has no block for the IPv6 unspecified address, and the
  function has no test for it: as a /128 it is a host address and is accepted.
\<close>

lemma ipv6_unspecified_accepted:
  "is_valid_intf_address (libcidr Little_endian) standard_blocks
     (ref_from_str ''::/128'') ''::/128'' 0 = RESULT_SUCCESS"
  by code_simp

lemma ref_equals_range: "cidr_equals (libcidr host) a b = 0 \<or> cidr_equals (libcidr host) a b = - 1"
  by (simp add: libcidr_def ref_equals_def split: option.split)

text \<open>
  C5. \<open>is_ipv6_host\<close> succeeds exactly when the protocol of the address is IPv6 and the
  address differs from its network address or its prefix length is at least 127: for every
  library whose equality test answers 0 or a negative number, and in the reference instance,
  where a handle differs from its network address when the two are different values. It
  fails on \<^verbatim>\<open>2001:db8::/64\<close> and succeeds on \<^verbatim>\<open>2001:db8::1/64\<close>.
\<close>

theorem is_ipv6_host_iff:
  "(cidr_equals L address (cidr_addr_network L address) \<le> 0 \<longrightarrow>
      (is_ipv6_host L address = RESULT_SUCCESS) =
        (cidr_get_proto L address = CIDR_IPV6 \<and>
         (cidr_equals L address (cidr_addr_network L address) \<noteq> 0 \<or>
          127 \<le> cidr_get_pflen L address))) \<and>
   (is_ipv6_host (libcidr host) handle = RESULT_SUCCESS) =
     (ref_get_proto handle = CIDR_IPV6 \<and>
      (handle \<noteq> ref_addr_network handle \<or> 127 \<le> ref_get_pflen handle)) \<and>
   is_ipv6_host (libcidr host) (cidr_from_str (libcidr host) ''2001:db8::/64'') = RESULT_FAILURE \<and>
   is_ipv6_host (libcidr host) (cidr_from_str (libcidr host) ''2001:db8::1/64'') = RESULT_SUCCESS"
proof (intro conjI impI)
  assume "cidr_equals L address (cidr_addr_network L address) \<le> 0"
  then show "(is_ipv6_host L address = RESULT_SUCCESS) =
        (cidr_get_proto L address = CIDR_IPV6 \<and>
         (cidr_equals L address (cidr_addr_network L address) \<noteq> 0 \<or>
          127 \<le> cidr_get_pflen L address))"
    by (auto simp: is_ipv6_host_def result_defs)
next
  show "(is_ipv6_host (libcidr host) handle = RESULT_SUCCESS) =
     (ref_get_proto handle = CIDR_IPV6 \<and>
      (handle \<noteq> ref_addr_network handle \<or> 127 \<le> ref_get_pflen handle))"
  proof (cases handle)
    case None
    then show ?thesis by (simp add: is_ipv6_host_def libcidr_defs result_defs proto_defs)
  next
    case (Some c)
    have "(c\<lparr>addr := addr c - addr c mod host_span c\<rparr> = c) =
          (addr c - addr c mod host_span c = addr c)"
      by (cases c) simp
    with Some show ?thesis
      by (auto simp: is_ipv6_host_def libcidr_defs result_defs)
  qed
next
  have "is_ipv6_host (libcidr Little_endian) (cidr_from_str (libcidr Little_endian) ''2001:db8::/64'')
          = RESULT_FAILURE"
    by code_simp
  then show "is_ipv6_host (libcidr host) (cidr_from_str (libcidr host) ''2001:db8::/64'')
          = RESULT_FAILURE"
    by (simp add: is_ipv6_host_def libcidr_def)
next
  have "is_ipv6_host (libcidr Little_endian) (cidr_from_str (libcidr Little_endian) ''2001:db8::1/64'')
          = RESULT_SUCCESS"
    by code_simp
  then show "is_ipv6_host (libcidr host) (cidr_from_str (libcidr host) ''2001:db8::1/64'')
          = RESULT_SUCCESS"
    by (simp add: is_ipv6_host_def libcidr_def)
qed

theorem is_ipv6_host_iff_witness:
  "cidr_equals (libcidr Big_endian) (ref_from_str ''2001:db8::1/64'')
     (cidr_addr_network (libcidr Big_endian) (ref_from_str ''2001:db8::1/64'')) \<le> 0 \<and>
   is_ipv6_host (libcidr Big_endian) (ref_from_str ''2001:db8::1/64'') = RESULT_SUCCESS \<and>
   cidr_get_proto (libcidr Big_endian) (ref_from_str ''2001:db8::1/64'') = CIDR_IPV6"
proof -
  let ?L = "libcidr Big_endian" and ?a = "ref_from_str ''2001:db8::1/64''"
  have le: "cidr_equals ?L ?a (cidr_addr_network ?L ?a) \<le> 0" by code_simp
  have cf: "cidr_from_str ?L = ref_from_str" by (simp add: libcidr_def)
  note t = is_ipv6_host_iff[where L = ?L and address = ?a and host = Big_endian and handle = ?a]
  have "is_ipv6_host ?L ?a = RESULT_SUCCESS"
    using t[THEN conjunct2, THEN conjunct2, THEN conjunct2] unfolding cf .
  with le t[THEN conjunct1] show ?thesis by blast
qed

text \<open>
  C9. \<open>is_ipv4_host\<close> and \<open>is_ipv4_net\<close> are not mutually exclusive. For an IPv4 address
  with a prefix length below 31 exactly one of the two succeeds; for an IPv4 address that
  equals its network address and has a prefix length of 31 or more both succeed. The same
  holds of \<open>is_ipv6_host\<close> and \<open>is_ipv6_net\<close> with 127 in place of 31. (The equality test of
  the library answers 0 or a negative number.)
\<close>

theorem host_net_overlap:
  "(cidr_get_proto L address = CIDR_IPV4 \<and> cidr_get_pflen L address < 31 \<and>
    cidr_equals L address (cidr_addr_network L address) \<le> 0 \<longrightarrow>
      (is_ipv4_host L address = RESULT_SUCCESS) \<noteq> (is_ipv4_net L address = RESULT_SUCCESS)) \<and>
   (cidr_get_proto L address = CIDR_IPV4 \<and> 31 \<le> cidr_get_pflen L address \<and>
    cidr_equals L address (cidr_addr_network L address) = 0 \<longrightarrow>
      is_ipv4_host L address = RESULT_SUCCESS \<and> is_ipv4_net L address = RESULT_SUCCESS) \<and>
   (cidr_get_proto L address = CIDR_IPV6 \<and> cidr_get_pflen L address < 127 \<and>
    cidr_equals L address (cidr_addr_network L address) \<le> 0 \<longrightarrow>
      (is_ipv6_host L address = RESULT_SUCCESS) \<noteq> (is_ipv6_net L address = RESULT_SUCCESS)) \<and>
   (cidr_get_proto L address = CIDR_IPV6 \<and> 127 \<le> cidr_get_pflen L address \<and>
    cidr_equals L address (cidr_addr_network L address) = 0 \<longrightarrow>
      is_ipv6_host L address = RESULT_SUCCESS \<and> is_ipv6_net L address = RESULT_SUCCESS)"
  by (auto simp: is_ipv4_host_def is_ipv4_net_def is_ipv6_host_def is_ipv6_net_def result_defs)

theorem host_net_overlap_witness:
  "is_ipv4_host (libcidr Little_endian) (ref_from_str ''192.0.2.1/24'') = RESULT_SUCCESS \<and>
   is_ipv4_net (libcidr Little_endian) (ref_from_str ''192.0.2.1/24'') \<noteq> RESULT_SUCCESS \<and>
   is_ipv4_host (libcidr Little_endian) (ref_from_str ''192.0.2.0/31'') = RESULT_SUCCESS \<and>
   is_ipv4_net (libcidr Little_endian) (ref_from_str ''192.0.2.0/31'') = RESULT_SUCCESS \<and>
   is_ipv6_host (libcidr Little_endian) (ref_from_str ''2001:db8::/64'') \<noteq> RESULT_SUCCESS \<and>
   is_ipv6_net (libcidr Little_endian) (ref_from_str ''2001:db8::/64'') = RESULT_SUCCESS \<and>
   is_ipv6_host (libcidr Little_endian) (ref_from_str ''2001:db8::/127'') = RESULT_SUCCESS \<and>
   is_ipv6_net (libcidr Little_endian) (ref_from_str ''2001:db8::/127'') = RESULT_SUCCESS"
proof -
  let ?L = "libcidr Little_endian"
  let ?a = "ref_from_str ''192.0.2.1/24''" and ?b = "ref_from_str ''192.0.2.0/31''"
  let ?c = "ref_from_str ''2001:db8::/64''" and ?d = "ref_from_str ''2001:db8::/127''"
  have a: "cidr_get_proto ?L ?a = CIDR_IPV4 \<and> cidr_get_pflen ?L ?a < 31 \<and>
           cidr_equals ?L ?a (cidr_addr_network ?L ?a) \<le> 0"
    by code_simp
  have ah: "is_ipv4_host ?L ?a = RESULT_SUCCESS" by code_simp
  have b: "cidr_get_proto ?L ?b = CIDR_IPV4 \<and> 31 \<le> cidr_get_pflen ?L ?b \<and>
           cidr_equals ?L ?b (cidr_addr_network ?L ?b) = 0"
    by code_simp
  have c: "cidr_get_proto ?L ?c = CIDR_IPV6 \<and> cidr_get_pflen ?L ?c < 127 \<and>
           cidr_equals ?L ?c (cidr_addr_network ?L ?c) \<le> 0"
    by code_simp
  have cn: "is_ipv6_net ?L ?c = RESULT_SUCCESS" by code_simp
  have d: "cidr_get_proto ?L ?d = CIDR_IPV6 \<and> 127 \<le> cidr_get_pflen ?L ?d \<and>
           cidr_equals ?L ?d (cidr_addr_network ?L ?d) = 0"
    by code_simp
  from a ah host_net_overlap[of ?L ?a]
  have 1: "is_ipv4_net ?L ?a \<noteq> RESULT_SUCCESS" by blast
  from b host_net_overlap[of ?L ?b]
  have 2: "is_ipv4_host ?L ?b = RESULT_SUCCESS \<and> is_ipv4_net ?L ?b = RESULT_SUCCESS" by blast
  from c cn host_net_overlap[of ?L ?c]
  have 3: "is_ipv6_host ?L ?c \<noteq> RESULT_SUCCESS" by blast
  from d host_net_overlap[of ?L ?d]
  have 4: "is_ipv6_host ?L ?d = RESULT_SUCCESS \<and> is_ipv6_net ?L ?d = RESULT_SUCCESS" by blast
  from ah 1 2 3 cn 4 show ?thesis by blast
qed

text \<open>
  C10. For an address whose protocol tag is the invalid one, that is, one that
  \<open>is_valid_address\<close> fails, every semantic classifier fails: \<open>is_ipv4\<close>, \<open>is_ipv6\<close>, the
  host, network and broadcast tests, the membership tests of the reserved blocks,
  \<open>is_any_host\<close>, \<open>is_any_net\<close> and \<open>is_valid_intf_address\<close>.
\<close>

theorem invalid_address_fails_all:
  assumes "is_valid_address L address = RESULT_FAILURE"
  shows "cidr_get_proto L address = INVALID_PROTO \<and>
         is_ipv4 L address = RESULT_FAILURE \<and>
         is_ipv6 L address = RESULT_FAILURE \<and>
         is_ipv4_host L address = RESULT_FAILURE \<and>
         is_ipv4_net L address = RESULT_FAILURE \<and>
         is_ipv4_broadcast L address = RESULT_FAILURE \<and>
         is_ipv4_multicast L T address = RESULT_FAILURE \<and>
         is_ipv4_loopback L T address = RESULT_FAILURE \<and>
         is_ipv4_link_local L T address = RESULT_FAILURE \<and>
         is_ipv4_rfc1918 L T address = RESULT_FAILURE \<and>
         is_ipv6_host L address = RESULT_FAILURE \<and>
         is_ipv6_net L address = RESULT_FAILURE \<and>
         is_ipv6_multicast L T address = RESULT_FAILURE \<and>
         is_ipv6_link_local L T address = RESULT_FAILURE \<and>
         is_any_host L address = RESULT_FAILURE \<and>
         is_any_net L address = RESULT_FAILURE \<and>
         is_valid_intf_address L T address address_str allow_loopback = RESULT_FAILURE"
proof -
  from assms have p: "cidr_get_proto L address = INVALID_PROTO"
    by (simp add: is_valid_address_def result_defs split: if_splits)
  then have n: "cidr_get_proto L address \<noteq> CIDR_IPV4" "cidr_get_proto L address \<noteq> CIDR_IPV6"
    by (simp_all add: proto_defs)
  have h: "is_ipv4_host L address = RESULT_FAILURE" "is_ipv6_host L address = RESULT_FAILURE"
    using n by (simp_all add: is_ipv4_host_def is_ipv6_host_def)
  then have ah: "is_any_host L address = RESULT_FAILURE"
    by (simp add: is_any_host_def result_defs)
  have nt: "is_ipv4_net L address = RESULT_FAILURE" "is_ipv6_net L address = RESULT_FAILURE"
    using n by (simp_all add: is_ipv4_net_def is_ipv6_net_def)
  then have an: "is_any_net L address = RESULT_FAILURE"
    by (simp add: is_any_net_def result_defs)
  have v: "is_valid_intf_address L T address address_str allow_loopback = RESULT_FAILURE"
    using ah by (simp add: is_valid_intf_address_def result_defs)
  have rest: "is_ipv4 L address = RESULT_FAILURE" "is_ipv6 L address = RESULT_FAILURE"
    "is_ipv4_broadcast L address = RESULT_FAILURE"
    "is_ipv4_multicast L T address = RESULT_FAILURE"
    "is_ipv4_loopback L T address = RESULT_FAILURE"
    "is_ipv4_link_local L T address = RESULT_FAILURE"
    "is_ipv4_rfc1918 L T address = RESULT_FAILURE"
    "is_ipv6_multicast L T address = RESULT_FAILURE"
    "is_ipv6_link_local L T address = RESULT_FAILURE"
    using n
    by (simp_all add: is_ipv4_def is_ipv6_def is_ipv4_broadcast_def is_ipv4_multicast_def
          is_ipv4_loopback_def is_ipv4_link_local_def is_ipv4_rfc1918_def
          is_ipv6_multicast_def is_ipv6_link_local_def)
  from p h ah nt an v rest show ?thesis by simp
qed

theorem invalid_address_fails_all_witness:
  "is_valid_address (libcidr Little_endian) (ref_from_str ''192.0.2.256/24'') = RESULT_FAILURE \<and>
   is_any_cidr ''192.0.2.256/24'' = RESULT_SUCCESS \<and>
   is_ipv4 (libcidr Little_endian) (ref_from_str ''192.0.2.256/24'') = RESULT_FAILURE \<and>
   is_any_host (libcidr Little_endian) (ref_from_str ''192.0.2.256/24'') = RESULT_FAILURE \<and>
   is_valid_intf_address (libcidr Little_endian) standard_blocks
     (ref_from_str ''192.0.2.256/24'') ''192.0.2.256/24'' LOOPBACK_ALLOWED = RESULT_FAILURE"
proof -
  have f: "is_valid_address (libcidr Little_endian) (ref_from_str ''192.0.2.256/24'')
             = RESULT_FAILURE"
    by code_simp
  have c: "is_any_cidr ''192.0.2.256/24'' = RESULT_SUCCESS" by code_simp
  from f c invalid_address_fails_all[OF f, of standard_blocks "''192.0.2.256/24''" LOOPBACK_ALLOWED]
  show ?thesis by blast
qed

section \<open>The range validators\<close>

lemma count_list_absent: "c \<notin> set xs \<Longrightarrow> count_list xs c = 0"
  by (induction xs) auto

lemma count_list_append: "count_list (xs @ ys) c = count_list xs c + count_list ys c"
  by (induction xs) auto

lemma match_range_body:
  assumes "match (Cat (some_rx (Class cs)) (Cat (Class ''-'') (some_rx (Class cs)))) t"
    and "CHR ''-'' \<notin> set cs"
  shows "count_list t CHR ''-'' = 1"
proof -
  from assms(1) obtain u x where ux: "t = u @ x" "match (some_rx (Class cs)) u"
    "match (Cat (Class ''-'') (some_rx (Class cs))) x"
    unfolding match_Cat[of "some_rx (Class cs)"] by blast
  from ux(3) obtain y w where yw: "x = y @ w" "match (Class ''-'') y" "match (some_rx (Class cs)) w"
    unfolding match_Cat[of "Class ''-''"] by blast
  from yw(2) have y: "y = ''-''" by (simp add: match_Class)
  from ux(2) have "set u \<subseteq> set cs" by (simp add: match_some_Class)
  with assms(2) have u: "count_list u CHR ''-'' = 0" by (intro count_list_absent) blast
  from yw(3) have "set w \<subseteq> set cs" by (simp add: match_some_Class)
  with assms(2) have w: "count_list w CHR ''-'' = 0" by (intro count_list_absent) blast
  from ux(1) yw(1) y u w show ?thesis by (simp add: count_list_append)
qed

lemma anchored_range_one_hyphen:
  assumes "regex_matches (anchored (Cat (some_rx (Class cs)) (Cat (Class ''-'') (some_rx (Class cs))))) s
             = RESULT_SUCCESS"
    and "CHR ''-'' \<notin> set cs"
  shows "count_list s CHR ''-'' = 1"
proof -
  let ?r = "Cat (some_rx (Class cs)) (Cat (Class ''-'') (some_rx (Class cs)))"
  from assms(1) have "match ?r s \<or> (\<exists>t. s = t @ [newline] \<and> match ?r t)"
    by (simp only: regex_matches_anchored)
  then show ?thesis
  proof
    assume "match ?r s"
    then show ?thesis using assms(2) by (rule match_range_body)
  next
    assume "\<exists>t. s = t @ [newline] \<and> match ?r t"
    then obtain t where t: "s = t @ [newline]" "match ?r t" by blast
    from t(2) assms(2) have "count_list t CHR ''-'' = 1" by (rule match_range_body)
    with t(1) show ?thesis by (simp add: count_list_append newline_def)
  qed
qed

lemma ipv4_gate_one_hyphen:
  "regex_matches ipv4_range_regex s = RESULT_SUCCESS \<Longrightarrow> count_list s CHR ''-'' = 1"
  unfolding ipv4_range_regex_def digitdot_def by (erule anchored_range_one_hyphen) simp

lemma ipv6_gate_one_hyphen:
  "regex_matches ipv6_range_regex s = RESULT_SUCCESS \<Longrightarrow> count_list s CHR ''-'' = 1"
  unfolding ipv6_range_regex_def hexcolon_def by (erule anchored_range_one_hyphen) simp

lemma regex_matches_not_success:
  "regex_matches p s \<noteq> RESULT_SUCCESS \<Longrightarrow> regex_matches p s = RESULT_FAILURE"
  using regex_matches_cases[of p s] by blast

lemma regex_matches_zero: "(regex_matches p s = 0) = (regex_matches p s = RESULT_FAILURE)"
  by (simp add: RESULT_FAILURE_def)

lemma regex_matches_nonzero: "(regex_matches p s \<noteq> 0) = (regex_matches p s = RESULT_SUCCESS)"
  using regex_matches_cases[of p s] by (auto simp: result_defs)

lemma ipv4_range_gate_fails:
  "regex_matches ipv4_range_regex s = RESULT_FAILURE \<Longrightarrow>
     is_ipv4_range L s p v = Inr (RESULT_FAILURE, say v (gate_message ''IPv4'' s))"
  by (simp add: is_ipv4_range_def gate_message_def RESULT_FAILURE_def)

lemma ipv6_range_gate_fails:
  "regex_matches ipv6_range_regex s = RESULT_FAILURE \<Longrightarrow>
     is_ipv6_range L s p v = Inr (RESULT_FAILURE, say v (gate_message ''IPv6'' s))"
  by (simp add: is_ipv6_range_def gate_message_def RESULT_FAILURE_def)

text \<open>
  C7. A string with more than one hyphen fails the format gate of either range validator,
  whose character sets exclude the hyphen; \<open>is_ipv4_range\<close> and \<open>is_ipv6_range\<close> then return
  failure from the gate's branch (with the gate's message when verbose), whatever the
  length of the string, so \<open>split_range\<close> and its treatment of several hyphens is never
  reached.
\<close>

theorem several_hyphens_stop_at_gate:
  assumes "1 < count_list s CHR ''-''"
  shows "regex_matches ipv4_range_regex s = RESULT_FAILURE \<and>
         regex_matches ipv6_range_regex s = RESULT_FAILURE \<and>
         is_ipv4_range L s p v = Inr (RESULT_FAILURE, say v (gate_message ''IPv4'' s)) \<and>
         is_ipv6_range L s p v = Inr (RESULT_FAILURE, say v (gate_message ''IPv6'' s))"
proof -
  from assms have "regex_matches ipv4_range_regex s \<noteq> RESULT_SUCCESS"
    using ipv4_gate_one_hyphen[of s] by auto
  then have 4: "regex_matches ipv4_range_regex s = RESULT_FAILURE"
    by (rule regex_matches_not_success)
  from assms have "regex_matches ipv6_range_regex s \<noteq> RESULT_SUCCESS"
    using ipv6_gate_one_hyphen[of s] by auto
  then have 6: "regex_matches ipv6_range_regex s = RESULT_FAILURE"
    by (rule regex_matches_not_success)
  from 4 6 ipv4_range_gate_fails[OF 4, of L p v] ipv6_range_gate_fails[OF 6, of L p v]
  show ?thesis by simp
qed

theorem several_hyphens_stop_at_gate_witness:
  "split_into 16 ''192.168.100.100.-192.0.2.5-192.0.2.9'' = Inl Buffer_overflow \<and>
   is_ipv4_range (libcidr Little_endian) ''192.168.100.100.-192.0.2.5-192.0.2.9'' 0 0
     = Inr (RESULT_FAILURE, []) \<and>
   1 < count_list ''192.0.2.1-192.0.2.5-192.0.2.9'' CHR ''-'' \<and>
   split_into 16 ''192.0.2.1-192.0.2.5-192.0.2.9'' = Inr (''192.0.2.1'', ''192.0.2.9'') \<and>
   is_ipv4_single ''192.0.2.1'' = RESULT_SUCCESS \<and>
   is_ipv4_single ''192.0.2.9'' = RESULT_SUCCESS \<and>
   is_ipv4_range (libcidr Little_endian) ''192.0.2.1-192.0.2.5-192.0.2.9'' 0 0
     = Inr (RESULT_FAILURE, []) \<and>
   is_ipv6_range (libcidr Little_endian) ''192.0.2.1-192.0.2.5-192.0.2.9'' 0 0
     = Inr (RESULT_FAILURE, [])"
proof -
  have c: "1 < count_list ''192.0.2.1-192.0.2.5-192.0.2.9'' CHR ''-''" by simp
  have s: "split_into 16 ''192.0.2.1-192.0.2.5-192.0.2.9'' = Inr (''192.0.2.1'', ''192.0.2.9'')"
    by code_simp
  have e: "is_ipv4_single ''192.0.2.1'' = RESULT_SUCCESS"
    "is_ipv4_single ''192.0.2.9'' = RESULT_SUCCESS"
    by code_simp+
  have c': "1 < count_list ''192.168.100.100.-192.0.2.5-192.0.2.9'' CHR ''-''" by simp
  have o: "split_into 16 ''192.168.100.100.-192.0.2.5-192.0.2.9'' = Inl Buffer_overflow"
    by code_simp
  from c s e o several_hyphens_stop_at_gate[OF c, of "libcidr Little_endian" 0 0]
    several_hyphens_stop_at_gate[OF c', of "libcidr Little_endian" 0 0]
  show ?thesis by (simp add: say_def)
qed

text \<open>
  C8. The result of \<open>is_ipv4_range\<close> and of \<open>is_ipv6_range\<close> (success, failure, or the
  fault the run ends in) is the same for any two values of the verbose flag: the flag
  changes the lines written, nothing else.
\<close>

theorem range_result_ignores_verbose:
  "map_sum id fst (is_ipv4_range L range_str prefix_length verbose) =
   map_sum id fst (is_ipv4_range L range_str prefix_length verbose') \<and>
   map_sum id fst (is_ipv6_range L range_str prefix_length verbose) =
   map_sum id fst (is_ipv6_range L range_str prefix_length verbose')"
proof
  show "map_sum id fst (is_ipv4_range L range_str prefix_length verbose) =
        map_sum id fst (is_ipv4_range L range_str prefix_length verbose')"
    by (simp add: is_ipv4_range_def Let_def split: sum.split option.split prod.split)
next
  show "map_sum id fst (is_ipv6_range L range_str prefix_length verbose) =
        map_sum id fst (is_ipv6_range L range_str prefix_length verbose')"
    by (simp add: is_ipv6_range_def Let_def split: sum.split option.split prod.split)
qed

lemma is_valid_address_nonzero:
  "(is_valid_address L a \<noteq> 0) = (is_valid_address L a = RESULT_SUCCESS)"
  by (simp add: is_valid_address_def result_defs)

lemma is_ipv4_range_stages:
  "is_ipv4_range L s p v =
     (if regex_matches ipv4_range_regex s = RESULT_FAILURE
      then Inr (RESULT_FAILURE, say v (gate_message ''IPv4'' s))
      else (case split_into 16 s of
              Inl e \<Rightarrow> Inl e
            | Inr (left, right) \<Rightarrow>
                if \<not> endpoint4_ok L left
                then Inr (RESULT_FAILURE, say v (endpoint_message ''IPv4'' s left))
                else if \<not> endpoint4_ok L right
                then Inr (RESULT_FAILURE, say v (endpoint_message ''IPv4'' s right))
                else if misordered4 L left right
                then Inr (RESULT_FAILURE, say v (order_message ''IPv4'' s))
                else if \<not> ordered4 L left right then Inl Null_dereference
                else if 0 < p
                then (case sprintf_prefixed 19 left p of
                        Inl e \<Rightarrow> Inl e
                      | Inr printed \<Rightarrow>
                          if uncontained L printed right then Inr (RESULT_FAILURE, [])
                          else Inr (RESULT_SUCCESS, []))
                else Inr (RESULT_SUCCESS, [])))"
  (is "?lhs = ?rhs")
proof (cases "regex_matches ipv4_range_regex s = RESULT_FAILURE")
  case True
  then show ?thesis
    by (simp add: is_ipv4_range_def RESULT_FAILURE_def gate_message_def)
next
  case False
  then have g: "regex_matches ipv4_range_regex s \<noteq> 0" by (simp add: RESULT_FAILURE_def)
  show ?thesis
  proof (cases "split_into 16 s")
    case (Inl e)
    with False g show ?thesis by (simp add: is_ipv4_range_def)
  next
    case (Inr ends)
    obtain left right where ends: "ends = (left, right)" by (cases ends)
    note sp = Inr[unfolded ends]
    show ?thesis
    proof (cases "endpoint4_ok L left")
      case lbad: False
      with False g sp show ?thesis
        by (simp add: is_ipv4_range_def endpoint4_ok_def endpoint_message_def)
    next
      case lok: True
      show ?thesis
      proof (cases "endpoint4_ok L right")
        case rbad: False
        with False g sp lok show ?thesis
          by (simp add: is_ipv4_range_def endpoint4_ok_def endpoint_message_def)
      next
        case rok: True
        from lok rok have oks:
          "is_ipv4_single left \<noteq> 0 \<and> is_valid_address L (cidr_from_str L left) \<noteq> 0"
          "is_ipv4_single right \<noteq> 0 \<and> is_valid_address L (cidr_from_str L right) \<noteq> 0"
          by (simp_all add: endpoint4_ok_def)
        have lhs: "?lhs =
          (case cidr_to_inaddr L (cidr_from_str L left) of
             None \<Rightarrow> Inl Null_dereference
           | Some l \<Rightarrow>
               (case cidr_to_inaddr L (cidr_from_str L right) of
                  None \<Rightarrow> Inl Null_dereference
                | Some r \<Rightarrow>
                    if s_addr l \<le> s_addr r then
                      (if 0 < p then
                         (case sprintf_prefixed 19 left p of
                            Inl e \<Rightarrow> Inl e
                          | Inr printed \<Rightarrow>
                              if uncontained L printed right then Inr (RESULT_FAILURE, [])
                              else Inr (RESULT_SUCCESS, []))
                       else Inr (RESULT_SUCCESS, []))
                    else Inr (RESULT_FAILURE, say v (order_message ''IPv4'' s))))"
          (is "_ = ?A")
          unfolding is_ipv4_range_def Let_def using g sp oks
          by (simp add: order_message_def uncontained_def
                split: option.split sum.split)
        have rhs: "?rhs =
          (if misordered4 L left right
           then Inr (RESULT_FAILURE, say v (order_message ''IPv4'' s))
           else if \<not> ordered4 L left right then Inl Null_dereference
           else if 0 < p
           then (case sprintf_prefixed 19 left p of
                   Inl e \<Rightarrow> Inl e
                 | Inr printed \<Rightarrow>
                     if uncontained L printed right then Inr (RESULT_FAILURE, [])
                     else Inr (RESULT_SUCCESS, []))
           else Inr (RESULT_SUCCESS, []))"
          (is "_ = ?B")
          using False sp lok rok by simp
        have "?A = ?B"
        proof (cases "cidr_to_inaddr L (cidr_from_str L left)")
          case None
          then show ?thesis by (simp add: ordered4_def misordered4_def)
        next
          case l: (Some l)
          show ?thesis
          proof (cases "cidr_to_inaddr L (cidr_from_str L right)")
            case None
            with l show ?thesis by (simp add: ordered4_def misordered4_def)
          next
            case r: (Some r)
            show ?thesis
            proof (cases "s_addr l \<le> s_addr r")
              case True
              then have "\<not> s_addr r < s_addr l" by simp
              with True l r show ?thesis by (simp add: ordered4_def misordered4_def)
            next
              case False
              then have "s_addr r < s_addr l" by simp
              with False l r show ?thesis by (simp add: ordered4_def misordered4_def)
            qed
          qed
        qed
        with lhs rhs show ?thesis by (simp only:)
      qed
    qed
  qed
qed

lemma is_ipv6_range_stages:
  "is_ipv6_range L s p v =
     (if regex_matches ipv6_range_regex s = RESULT_FAILURE
      then Inr (RESULT_FAILURE, say v (gate_message ''IPv6'' s))
      else (case split_into 40 s of
              Inl e \<Rightarrow> Inl e
            | Inr (left, right) \<Rightarrow>
                if \<not> endpoint6_ok L left
                then Inr (RESULT_FAILURE, say v (endpoint_message ''IPv6'' s left))
                else if \<not> endpoint6_ok L right
                then Inr (RESULT_FAILURE, say v (endpoint_message ''IPv6'' s right))
                else if misordered6 L left right
                then Inr (RESULT_FAILURE, say v (order_message ''IPv6'' s))
                else if \<not> ordered6 L left right then Inl Null_dereference
                else if 0 < p
                then (case sprintf_prefixed 44 left p of
                        Inl e \<Rightarrow> Inl e
                      | Inr printed \<Rightarrow>
                          if uncontained L printed right then Inr (RESULT_FAILURE, [])
                          else Inr (RESULT_SUCCESS, []))
                else Inr (RESULT_SUCCESS, [])))"
  (is "?lhs = ?rhs")
proof (cases "regex_matches ipv6_range_regex s = RESULT_FAILURE")
  case True
  then show ?thesis
    by (simp add: is_ipv6_range_def RESULT_FAILURE_def gate_message_def)
next
  case False
  then have g: "regex_matches ipv6_range_regex s \<noteq> 0" by (simp add: RESULT_FAILURE_def)
  show ?thesis
  proof (cases "split_into 40 s")
    case (Inl e)
    with False g show ?thesis by (simp add: is_ipv6_range_def)
  next
    case (Inr ends)
    obtain left right where ends: "ends = (left, right)" by (cases ends)
    note sp = Inr[unfolded ends]
    show ?thesis
    proof (cases "endpoint6_ok L left")
      case lbad: False
      with False g sp show ?thesis
        by (simp add: is_ipv6_range_def endpoint6_ok_def endpoint_message_def)
    next
      case lok: True
      show ?thesis
      proof (cases "endpoint6_ok L right")
        case rbad: False
        with False g sp lok show ?thesis
          by (simp add: is_ipv6_range_def endpoint6_ok_def endpoint_message_def)
      next
        case rok: True
        from lok rok have oks:
          "is_ipv6_single left \<noteq> 0 \<and> is_valid_address L (cidr_from_str L left) \<noteq> 0 \<and> duplicate_double_colons left = 0"
          "is_ipv6_single right \<noteq> 0 \<and> is_valid_address L (cidr_from_str L right) \<noteq> 0 \<and> duplicate_double_colons right = 0"
          by (simp_all add: endpoint6_ok_def)
        have lhs: "?lhs =
          (case cidr_to_in6addr L (cidr_from_str L left) of
             None \<Rightarrow> Inl Null_dereference
           | Some l \<Rightarrow>
               (case cidr_to_in6addr L (cidr_from_str L right) of
                  None \<Rightarrow> Inl Null_dereference
                | Some r \<Rightarrow>
                    if compare_ipv6 l r \<le> 0 then
                      (if 0 < p then
                         (case sprintf_prefixed 44 left p of
                            Inl e \<Rightarrow> Inl e
                          | Inr printed \<Rightarrow>
                              if uncontained L printed right then Inr (RESULT_FAILURE, [])
                              else Inr (RESULT_SUCCESS, []))
                       else Inr (RESULT_SUCCESS, []))
                    else Inr (RESULT_FAILURE, say v (order_message ''IPv6'' s))))"
          (is "_ = ?A")
          unfolding is_ipv6_range_def Let_def using g sp oks
          by (simp add: order_message_def uncontained_def
                split: option.split sum.split)
        have rhs: "?rhs =
          (if misordered6 L left right
           then Inr (RESULT_FAILURE, say v (order_message ''IPv6'' s))
           else if \<not> ordered6 L left right then Inl Null_dereference
           else if 0 < p
           then (case sprintf_prefixed 44 left p of
                   Inl e \<Rightarrow> Inl e
                 | Inr printed \<Rightarrow>
                     if uncontained L printed right then Inr (RESULT_FAILURE, [])
                     else Inr (RESULT_SUCCESS, []))
           else Inr (RESULT_SUCCESS, []))"
          (is "_ = ?B")
          using False sp lok rok by simp
        have "?A = ?B"
        proof (cases "cidr_to_in6addr L (cidr_from_str L left)")
          case None
          then show ?thesis by (simp add: ordered6_def misordered6_def)
        next
          case l: (Some l)
          show ?thesis
          proof (cases "cidr_to_in6addr L (cidr_from_str L right)")
            case None
            with l show ?thesis by (simp add: ordered6_def misordered6_def)
          next
            case r: (Some r)
            show ?thesis
            proof (cases "compare_ipv6 l r \<le> 0")
              case True
              then have "\<not> 0 < compare_ipv6 l r" by simp
              with True l r show ?thesis by (simp add: ordered6_def misordered6_def)
            next
              case False
              then have "0 < compare_ipv6 l r" by simp
              with False l r show ?thesis by (simp add: ordered6_def misordered6_def)
            qed
          qed
        qed
        with lhs rhs show ?thesis by (simp only:)
      qed
    qed
  qed
qed

lemma say_quiet: "say 0 line = []"
  by (simp add: say_def)

lemma say_loud: "say v line \<noteq> [] \<Longrightarrow> v \<noteq> 0"
  by (simp add: say_def split: if_splits)

lemma ipv4_range_says:
  assumes "is_ipv4_range L s p v = Inr (r, out)"
  shows "(v = 0 \<longrightarrow> out = []) \<and>
         (out \<noteq> [] \<longrightarrow> v \<noteq> 0 \<and> r = RESULT_FAILURE \<and>
            (regex_matches ipv4_range_regex s = RESULT_FAILURE \<or>
             (\<exists>left right. split_into 16 s = Inr (left, right) \<and>
                (\<not> endpoint4_ok L left \<or> \<not> endpoint4_ok L right \<or> misordered4 L left right))))"
  using assms unfolding is_ipv4_range_stages
  by (auto simp: say_def split: if_splits sum.splits prod.splits)

lemma ipv6_range_says:
  assumes "is_ipv6_range L s p v = Inr (r, out)"
  shows "(v = 0 \<longrightarrow> out = []) \<and>
         (out \<noteq> [] \<longrightarrow> v \<noteq> 0 \<and> r = RESULT_FAILURE \<and>
            (regex_matches ipv6_range_regex s = RESULT_FAILURE \<or>
             (\<exists>left right. split_into 40 s = Inr (left, right) \<and>
                (\<not> endpoint6_ok L left \<or> \<not> endpoint6_ok L right \<or> misordered6 L left right))))"
  using assms unfolding is_ipv6_range_stages
  by (auto simp: say_def split: if_splits sum.splits prod.splits)

lemma ordered4_not_misordered: "ordered4 L left right \<Longrightarrow> \<not> misordered4 L left right"
  by (auto simp: ordered4_def misordered4_def split: option.splits)

lemma ordered6_not_misordered: "ordered6 L left right \<Longrightarrow> \<not> misordered6 L left right"
  by (auto simp: ordered6_def misordered6_def split: option.splits)

lemma ipv4_range_uncontained:
  assumes "regex_matches ipv4_range_regex s = RESULT_SUCCESS"
    and "split_into 16 s = Inr (left, right)"
    and "endpoint4_ok L left" and "endpoint4_ok L right" and "ordered4 L left right"
    and "0 < p" and "sprintf_prefixed 19 left p = Inr printed"
    and "uncontained L printed right"
  shows "is_ipv4_range L s p v = Inr (RESULT_FAILURE, [])"
  using assms ordered4_not_misordered[of L left right] success_not_failure
  unfolding is_ipv4_range_stages by simp

lemma ipv6_range_uncontained:
  assumes "regex_matches ipv6_range_regex s = RESULT_SUCCESS"
    and "split_into 40 s = Inr (left, right)"
    and "endpoint6_ok L left" and "endpoint6_ok L right" and "ordered6 L left right"
    and "0 < p" and "sprintf_prefixed 44 left p = Inr printed"
    and "uncontained L printed right"
  shows "is_ipv6_range L s p v = Inr (RESULT_FAILURE, [])"
  using assms ordered6_not_misordered[of L left right] success_not_failure
  unfolding is_ipv6_range_stages by simp

text \<open>
  What the two validators do, stage by stage, in terms of their own tests: a line is
  written only when the verbose flag is set, and only when the format gate fails, an
  endpoint fails its test, or the ordering test of the validator fails; once the ordering
  test has passed and the prefix length is positive, a failed containment test returns
  failure and writes nothing. For IPv6 the ordering test is the numeric order of the two
  addresses (\<open>compare_ipv6_numeric\<close>); for IPv4 it is the comparison of the two \<^verbatim>\<open>s_addr\<close>
  fields as the host reads them.
\<close>

lemma range_lines_by_stage:
  "(is_ipv4_range L s p v = Inr (r, out) \<longrightarrow>
      (v = 0 \<longrightarrow> out = []) \<and>
      (out \<noteq> [] \<longrightarrow> v \<noteq> 0 \<and> r = RESULT_FAILURE \<and>
         (regex_matches ipv4_range_regex s = RESULT_FAILURE \<or>
          (\<exists>left right. split_into 16 s = Inr (left, right) \<and>
             (\<not> endpoint4_ok L left \<or> \<not> endpoint4_ok L right \<or>
              misordered4 L left right))))) \<and>
   (is_ipv6_range L s p v = Inr (r, out) \<longrightarrow>
      (v = 0 \<longrightarrow> out = []) \<and>
      (out \<noteq> [] \<longrightarrow> v \<noteq> 0 \<and> r = RESULT_FAILURE \<and>
         (regex_matches ipv6_range_regex s = RESULT_FAILURE \<or>
          (\<exists>left right. split_into 40 s = Inr (left, right) \<and>
             (\<not> endpoint6_ok L left \<or> \<not> endpoint6_ok L right \<or>
              misordered6 L left right))))) \<and>
   (regex_matches ipv4_range_regex s = RESULT_SUCCESS \<and>
    split_into 16 s = Inr (left, right) \<and>
    endpoint4_ok L left \<and> endpoint4_ok L right \<and> ordered4 L left right \<and>
    0 < p \<and> sprintf_prefixed 19 left p = Inr printed \<and> uncontained L printed right \<longrightarrow>
      is_ipv4_range L s p v = Inr (RESULT_FAILURE, [])) \<and>
   (regex_matches ipv6_range_regex s = RESULT_SUCCESS \<and>
    split_into 40 s = Inr (left, right) \<and>
    endpoint6_ok L left \<and> endpoint6_ok L right \<and> ordered6 L left right \<and>
    0 < p \<and> sprintf_prefixed 44 left p = Inr printed \<and> uncontained L printed right \<longrightarrow>
      is_ipv6_range L s p v = Inr (RESULT_FAILURE, []))"
  using ipv4_range_says[of L s p v r out] ipv6_range_says[of L s p v r out]
    ipv4_range_uncontained[of s left right L p printed v]
    ipv6_range_uncontained[of s left right L p printed v]
  by blast

lemma range_lines_by_stage_example:
  "is_ipv4_range (libcidr Little_endian) ''192.0.2.10-192.0.2.1'' 0 1 =
     Inr (RESULT_FAILURE, [order_message ''IPv4'' ''192.0.2.10-192.0.2.1'']) \<and>
   misordered4 (libcidr Little_endian) ''192.0.2.10'' ''192.0.2.1'' \<and>
   is_ipv4_range (libcidr Little_endian) ''192.0.2.10-192.0.2.1'' 0 0 = Inr (RESULT_FAILURE, []) \<and>
   is_ipv6_range (libcidr Little_endian) ''2001:db8::10-2001:db8::1'' 0 1 =
     Inr (RESULT_FAILURE, [order_message ''IPv6'' ''2001:db8::10-2001:db8::1'']) \<and>
   misordered6 (libcidr Little_endian) ''2001:db8::10'' ''2001:db8::1'' \<and>
   uncontained (libcidr Little_endian) ''192.0.2.1/24'' ''192.0.3.10'' \<and>
   is_ipv4_range (libcidr Little_endian) ''192.0.2.1-192.0.3.10'' 24 1 = Inr (RESULT_FAILURE, []) \<and>
   uncontained (libcidr Little_endian) ''2001:db8::1/64'' ''2001:db8:0:1::1'' \<and>
   is_ipv6_range (libcidr Little_endian) ''2001:db8::1-2001:db8:0:1::1'' 64 1 =
     Inr (RESULT_FAILURE, [])"
proof -
  let ?L = "libcidr Little_endian"
  have run4: "is_ipv4_range ?L ''192.0.2.10-192.0.2.1'' 0 1 =
     Inr (RESULT_FAILURE, [order_message ''IPv4'' ''192.0.2.10-192.0.2.1''])"
    by code_simp
  have quiet4: "is_ipv4_range ?L ''192.0.2.10-192.0.2.1'' 0 0 = Inr (RESULT_FAILURE, [])"
    by code_simp
  have sp4: "split_into 16 ''192.0.2.10-192.0.2.1'' = Inr (''192.0.2.10'', ''192.0.2.1'')"
    by code_simp
  have g4: "regex_matches ipv4_range_regex ''192.0.2.10-192.0.2.1'' \<noteq> RESULT_FAILURE"
    by code_simp
  have ok4: "endpoint4_ok ?L ''192.0.2.10''" "endpoint4_ok ?L ''192.0.2.1''"
    by code_simp+
  from run4 range_lines_by_stage[of ?L "''192.0.2.10-192.0.2.1''" 0 1 RESULT_FAILURE
      "[order_message ''IPv4'' ''192.0.2.10-192.0.2.1'']"]
  have "regex_matches ipv4_range_regex ''192.0.2.10-192.0.2.1'' = RESULT_FAILURE \<or>
        (\<exists>left right. split_into 16 ''192.0.2.10-192.0.2.1'' = Inr (left, right) \<and>
           (\<not> endpoint4_ok ?L left \<or> \<not> endpoint4_ok ?L right \<or> misordered4 ?L left right))"
    by blast
  with g4 sp4 ok4 have mis4: "misordered4 ?L ''192.0.2.10'' ''192.0.2.1''" by auto
  have run6: "is_ipv6_range ?L ''2001:db8::10-2001:db8::1'' 0 1 =
     Inr (RESULT_FAILURE, [order_message ''IPv6'' ''2001:db8::10-2001:db8::1''])"
    by code_simp
  have sp6: "split_into 40 ''2001:db8::10-2001:db8::1'' = Inr (''2001:db8::10'', ''2001:db8::1'')"
    by code_simp
  have g6: "regex_matches ipv6_range_regex ''2001:db8::10-2001:db8::1'' \<noteq> RESULT_FAILURE"
    by code_simp
  have ok6: "endpoint6_ok ?L ''2001:db8::10''" "endpoint6_ok ?L ''2001:db8::1''"
    by code_simp+
  from run6 range_lines_by_stage[of ?L "''2001:db8::10-2001:db8::1''" 0 1 RESULT_FAILURE
      "[order_message ''IPv6'' ''2001:db8::10-2001:db8::1'']"]
  have "regex_matches ipv6_range_regex ''2001:db8::10-2001:db8::1'' = RESULT_FAILURE \<or>
        (\<exists>left right. split_into 40 ''2001:db8::10-2001:db8::1'' = Inr (left, right) \<and>
           (\<not> endpoint6_ok ?L left \<or> \<not> endpoint6_ok ?L right \<or> misordered6 ?L left right))"
    by blast
  with g6 sp6 ok6 have mis6: "misordered6 ?L ''2001:db8::10'' ''2001:db8::1''" by auto
  have c4: "regex_matches ipv4_range_regex ''192.0.2.1-192.0.3.10'' = RESULT_SUCCESS \<and>
    split_into 16 ''192.0.2.1-192.0.3.10'' = Inr (''192.0.2.1'', ''192.0.3.10'') \<and>
    endpoint4_ok ?L ''192.0.2.1'' \<and> endpoint4_ok ?L ''192.0.3.10'' \<and>
    ordered4 ?L ''192.0.2.1'' ''192.0.3.10'' \<and> (0::int) < 24 \<and>
    sprintf_prefixed 19 ''192.0.2.1'' 24 = Inr ''192.0.2.1/24'' \<and>
    uncontained ?L ''192.0.2.1/24'' ''192.0.3.10''"
    by code_simp
  with range_lines_by_stage[of ?L "''192.0.2.1-192.0.3.10''" 24 1 _ _ "''192.0.2.1''"
      "''192.0.3.10''" "''192.0.2.1/24''"]
  have silent4: "is_ipv4_range ?L ''192.0.2.1-192.0.3.10'' 24 1 = Inr (RESULT_FAILURE, [])"
    by blast
  have c6: "regex_matches ipv6_range_regex ''2001:db8::1-2001:db8:0:1::1'' = RESULT_SUCCESS \<and>
    split_into 40 ''2001:db8::1-2001:db8:0:1::1'' = Inr (''2001:db8::1'', ''2001:db8:0:1::1'') \<and>
    endpoint6_ok ?L ''2001:db8::1'' \<and> endpoint6_ok ?L ''2001:db8:0:1::1'' \<and>
    ordered6 ?L ''2001:db8::1'' ''2001:db8:0:1::1'' \<and> (0::int) < 64 \<and>
    sprintf_prefixed 44 ''2001:db8::1'' 64 = Inr ''2001:db8::1/64'' \<and>
    uncontained ?L ''2001:db8::1/64'' ''2001:db8:0:1::1''"
    by code_simp
  with range_lines_by_stage[of ?L "''2001:db8::1-2001:db8:0:1::1''" 64 1 _ _ "''2001:db8::1''"
      "''2001:db8:0:1::1''" "''2001:db8::1/64''"]
  have silent6: "is_ipv6_range ?L ''2001:db8::1-2001:db8:0:1::1'' 64 1 = Inr (RESULT_FAILURE, [])"
    by blast
  from run4 mis4 quiet4 run6 mis6 c4 silent4 c6 silent6 show ?thesis by blast
qed

text \<open>
  C2 (the code departs from it). With both endpoints valid and no prefix length, a range
  validator accepts exactly when its ordering test passes (lemmas \<open>ipv4_range_order\<close> and
  \<open>ipv6_range_order\<close>), and the IPv6 test is the numeric order of the two addresses
  (\<open>compare_ipv6_numeric\<close>). The IPv4 test compares the two \<^verbatim>\<open>s_addr\<close> fields as the host
  reads them, with no conversion from network byte order: on a little-endian host the
  range 1.0.0.2-2.0.0.1 is refused and 2.0.0.1-1.0.0.2 is accepted, on a big-endian host
  the order is the numeric one.
\<close>

theorem ipv4_range_byte_order:
  "ref_from_str ''1.0.0.2'' = Some \<lparr>proto = CIDR_IPV4, addr = 16777218, pflen = 32\<rparr> \<and>
   ref_from_str ''2.0.0.1'' = Some \<lparr>proto = CIDR_IPV4, addr = 33554433, pflen = 32\<rparr> \<and>
   is_ipv4_range (libcidr Little_endian) ''1.0.0.2-2.0.0.1'' 0 1 =
     Inr (RESULT_FAILURE, [order_message ''IPv4'' ''1.0.0.2-2.0.0.1'']) \<and>
   is_ipv4_range (libcidr Little_endian) ''2.0.0.1-1.0.0.2'' 0 1 = Inr (RESULT_SUCCESS, []) \<and>
   is_ipv4_range (libcidr Big_endian) ''1.0.0.2-2.0.0.1'' 0 1 = Inr (RESULT_SUCCESS, []) \<and>
   is_ipv4_range (libcidr Big_endian) ''2.0.0.1-1.0.0.2'' 0 1 =
     Inr (RESULT_FAILURE, [order_message ''IPv4'' ''2.0.0.1-1.0.0.2''])"
  by code_simp

lemma ipv4_range_order:
  assumes "regex_matches ipv4_range_regex s = RESULT_SUCCESS"
    and "split_into 16 s = Inr (left, right)"
    and "endpoint4_ok L left" and "endpoint4_ok L right"
    and "cidr_to_inaddr L (cidr_from_str L left) = Some l"
    and "cidr_to_inaddr L (cidr_from_str L right) = Some r"
    and "p \<le> 0"
  shows "is_ipv4_range L s p v =
           (if s_addr l \<le> s_addr r then Inr (RESULT_SUCCESS, [])
            else Inr (RESULT_FAILURE, say v (order_message ''IPv4'' s)))"
  using assms success_not_failure unfolding is_ipv4_range_stages
  by (auto simp: ordered4_def misordered4_def)

lemma be_value_step:
  assumes "x < y"
  shows "x * 256 + unat (u :: 8 word) < y * 256 + unat (v :: 8 word)"
proof -
  have "unat u < 2 ^ LENGTH(8)" by (rule unsigned_less)
  then have "unat u < 256" by simp
  then have "x * 256 + unat u < (x + 1) * 256" by simp
  also from assms have "(x + 1) * 256 \<le> y * 256" by simp
  finally show ?thesis by simp
qed

lemma be_value_strict:
  assumes "n \<le> m" and "be_value n a < be_value n b"
  shows "be_value m a < be_value m b"
  using assms by (induction rule: dec_induct) (simp_all add: be_value_step)

lemma be_value_agree: "(\<And>k. k < n \<Longrightarrow> a k = b k) \<Longrightarrow> be_value n a = be_value n b"
  by (induction n) simp_all

lemma compare_ipv6_from_numeric:
  assumes "i \<le> 16" and "\<And>k. k < i \<Longrightarrow> s6_addr left k = s6_addr right k"
  shows "(compare_ipv6_from i left right \<le> 0) = (in6_value left \<le> in6_value right)"
  using assms
proof (induction i left right rule: compare_ipv6_from.induct)
  case (1 i left right)
  let ?a = "s6_addr left" and ?b = "s6_addr right"
  have pre: "be_value i ?a = be_value i ?b" using "1.prems"(2) by (rule be_value_agree)
  show ?case
  proof (cases "i < 16")
    case False
    with "1.prems"(1) have "i = 16" by simp
    with pre have "in6_value left = in6_value right" by (simp add: in6_value_def)
    with False show ?thesis by (subst compare_ipv6_from.simps) simp
  next
    case True
    then have le: "Suc i \<le> 16" by simp
    consider (lt) "?a i < ?b i" | (gt) "?b i < ?a i" | (eq) "?a i = ?b i"
      using linorder_less_linear by blast
    then show ?thesis
    proof cases
      case lt
      then have "unat (?a i) < unat (?b i)" by (simp add: word_less_nat_alt)
      with pre have "be_value (Suc i) ?a < be_value (Suc i) ?b" by simp
      with le have "in6_value left < in6_value right"
        unfolding in6_value_def by (rule be_value_strict)
      with True lt show ?thesis by (subst compare_ipv6_from.simps) simp
    next
      case gt
      then have "unat (?b i) < unat (?a i)" by (simp add: word_less_nat_alt)
      with pre have "be_value (Suc i) ?b < be_value (Suc i) ?a" by simp
      with le have "in6_value right < in6_value left"
        unfolding in6_value_def by (rule be_value_strict)
      moreover from gt have "\<not> ?a i < ?b i" by simp
      ultimately show ?thesis using True gt by (subst compare_ipv6_from.simps) simp
    next
      case eq
      with "1.prems"(2) have "\<And>k. k < Suc i \<Longrightarrow> ?a k = ?b k"
        using less_Suc_eq by auto
      with True eq le "1.IH" have
        "(compare_ipv6_from (Suc i) left right \<le> 0) = (in6_value left \<le> in6_value right)"
        by simp
      with True eq show ?thesis by (subst compare_ipv6_from.simps) simp
    qed
  qed
qed

lemma compare_ipv6_numeric:
  "(compare_ipv6 left right \<le> 0) = (in6_value left \<le> in6_value right)"
  unfolding compare_ipv6_def by (rule compare_ipv6_from_numeric) simp_all

lemma ipv6_range_order:
  assumes "regex_matches ipv6_range_regex s = RESULT_SUCCESS"
    and "split_into 40 s = Inr (left, right)"
    and "endpoint6_ok L left" and "endpoint6_ok L right"
    and "cidr_to_in6addr L (cidr_from_str L left) = Some l"
    and "cidr_to_in6addr L (cidr_from_str L right) = Some r"
    and "p \<le> 0"
  shows "is_ipv6_range L s p v =
           (if in6_value l \<le> in6_value r then Inr (RESULT_SUCCESS, [])
            else Inr (RESULT_FAILURE, say v (order_message ''IPv6'' s)))"
  using assms success_not_failure compare_ipv6_numeric[of l r]
  unfolding is_ipv6_range_stages
  by (auto simp: ordered6_def misordered6_def)

text \<open>
  In the reference instance the sixteen bytes of an IPv6 handle denote its address, so the
  IPv6 ordering test is the numeric order of the two addresses; the \<^verbatim>\<open>s_addr\<close> of an IPv4
  handle denotes its address on a big-endian host, where the IPv4 test is the numeric order
  as well.
\<close>

lemma be_value_bytes:
  assumes "0 \<le> x"
  shows "n \<le> 16 \<Longrightarrow>
    int (be_value n (\<lambda>i. of_int (x div 256 ^ (15 - i)))) = x div 256 ^ (16 - n) mod 256 ^ n"
proof (induction n)
  case 0
  show ?case by simp
next
  case (Suc n)
  let ?y = "x div 256 ^ (15 - n)"
  from Suc.prems have n: "n \<le> 16" "16 - n = Suc (15 - n)" by simp_all
  have d: "x div 256 ^ (16 - n) = ?y div 256"
  proof -
    have "x div (256 ^ (15 - n) * 256) = x div 256 ^ (15 - n) div 256"
      by (rule zdiv_zmult2_eq) simp
    then show ?thesis unfolding n(2) by (simp add: mult.commute)
  qed
  have b: "int (unat (of_int ?y :: 8 word)) = ?y mod 256"
    by (simp add: uint_word_of_int)
  have "int (be_value (Suc n) (\<lambda>i. of_int (x div 256 ^ (15 - i)))) =
        (?y div 256 mod 256 ^ n) * 256 + ?y mod 256"
    using Suc.IH[OF n(1)] d b by simp
  also have "\<dots> = ?y mod 256 ^ Suc n"
  proof -
    have "?y mod (256 * 256 ^ n) = 256 * (?y div 256 mod 256 ^ n) + ?y mod 256"
      by (rule zmod_zmult2_eq) simp
    then show ?thesis by (simp add: mult.commute)
  qed
  finally show ?case by simp
qed

lemma ref_in6_value:
  assumes "proto c = CIDR_IPV6" "0 \<le> addr c" "addr c < 2 ^ 128"
  shows "\<exists>a. ref_to_in6addr (Some c) = Some a \<and> int (in6_value a) = addr c"
proof -
  have "int (be_value 16 (\<lambda>i. of_int (addr c div 256 ^ (15 - i)))) = addr c mod 256 ^ 16"
    using be_value_bytes[OF assms(2), of 16] by simp
  also have "\<dots> = addr c" using assms(2,3) by simp
  finally show ?thesis using assms(1) by (simp add: ref_to_in6addr_def in6_value_def)
qed

lemma ref_in_value_big_endian:
  assumes "proto c = CIDR_IPV4" "0 \<le> addr c" "addr c < 2 ^ 32"
  shows "\<exists>a. ref_to_inaddr Big_endian (Some c) = Some a \<and> uint (s_addr a) = addr c"
  using assms by (simp add: ref_to_inaddr_def htonl_def uint_word_of_int)

lemma ipv6_order_numeric:
  assumes "proto a = CIDR_IPV6" "0 \<le> addr a" "addr a < 2 ^ 128"
    and "proto b = CIDR_IPV6" "0 \<le> addr b" "addr b < 2 ^ 128"
  shows "\<exists>x y. ref_to_in6addr (Some a) = Some x \<and> ref_to_in6addr (Some b) = Some y \<and>
           (compare_ipv6 x y \<le> 0) = (addr a \<le> addr b)"
proof -
  from assms(1-3) obtain x where x: "ref_to_in6addr (Some a) = Some x" "int (in6_value x) = addr a"
    using ref_in6_value by blast
  from assms(4-6) obtain y where y: "ref_to_in6addr (Some b) = Some y" "int (in6_value y) = addr b"
    using ref_in6_value by blast
  have "(compare_ipv6 x y \<le> 0) = (int (in6_value x) \<le> int (in6_value y))"
    by (simp add: compare_ipv6_numeric)
  with x y show ?thesis by simp
qed

lemma ipv4_order_big_endian:
  assumes "proto a = CIDR_IPV4" "0 \<le> addr a" "addr a < 2 ^ 32"
    and "proto b = CIDR_IPV4" "0 \<le> addr b" "addr b < 2 ^ 32"
  shows "\<exists>x y. ref_to_inaddr Big_endian (Some a) = Some x \<and>
           ref_to_inaddr Big_endian (Some b) = Some y \<and>
           (s_addr x \<le> s_addr y) = (addr a \<le> addr b)"
proof -
  from assms(1-3) obtain x where
    x: "ref_to_inaddr Big_endian (Some a) = Some x" "uint (s_addr x) = addr a"
    using ref_in_value_big_endian by blast
  from assms(4-6) obtain y where
    y: "ref_to_inaddr Big_endian (Some b) = Some y" "uint (s_addr y) = addr b"
    using ref_in_value_big_endian by blast
  have "(s_addr x \<le> s_addr y) = (uint (s_addr x) \<le> uint (s_addr y))"
    by (rule word_le_def)
  with x y show ?thesis by simp
qed

text \<open>
  C6 (the code departs from it). A range validator should write a line only when the
  verbose flag is set and only for a failed format gate, an invalid left or right endpoint,
  or a first address greater than the last, and should fail silently when a nonzero prefix
  length is given and the right endpoint lies outside the network of the left one. The
  IPv4 validator compares the two \<^verbatim>\<open>s_addr\<close> fields with no conversion from network byte
  order: on a little-endian host the range 1.0.0.2-2.0.0.1, whose first address is the
  smaller one, gets the line "its first address is greater than the last", also with the
  prefix length 8, where the failure is one of containment (2.0.0.1 is outside 1.0.0.0/8)
  and is silent on a big-endian host. The containment step runs for a prefix length above
  zero only: with the prefix length -24 the range 192.0.2.1-192.0.3.10, refused with 24,
  is accepted.
\<close>

theorem range_diagnostics_byte_order:
  "ref_from_str ''1.0.0.2'' = Some \<lparr>proto = CIDR_IPV4, addr = 16777218, pflen = 32\<rparr> \<and>
   ref_from_str ''2.0.0.1'' = Some \<lparr>proto = CIDR_IPV4, addr = 33554433, pflen = 32\<rparr> \<and>
   is_ipv4_range (libcidr Little_endian) ''1.0.0.2-2.0.0.1'' 0 1 =
     Inr (RESULT_FAILURE, [order_message ''IPv4'' ''1.0.0.2-2.0.0.1'']) \<and>
   sprintf_prefixed 19 ''1.0.0.2'' 8 = Inr ''1.0.0.2/8'' \<and>
   uncontained (libcidr Little_endian) ''1.0.0.2/8'' ''2.0.0.1'' \<and>
   is_ipv4_range (libcidr Little_endian) ''1.0.0.2-2.0.0.1'' 8 1 =
     Inr (RESULT_FAILURE, [order_message ''IPv4'' ''1.0.0.2-2.0.0.1'']) \<and>
   is_ipv4_range (libcidr Big_endian) ''1.0.0.2-2.0.0.1'' 8 1 = Inr (RESULT_FAILURE, []) \<and>
   uncontained (libcidr Big_endian) ''192.0.2.1/24'' ''192.0.3.10'' \<and>
   is_ipv4_range (libcidr Big_endian) ''192.0.2.1-192.0.3.10'' 24 1 = Inr (RESULT_FAILURE, []) \<and>
   is_ipv4_range (libcidr Big_endian) ''192.0.2.1-192.0.3.10'' (- 24) 1 =
     Inr (RESULT_SUCCESS, [])"
  by code_simp

lemma htonl_big_endian: "htonl Big_endian x = x"
  by (simp add: htonl_def)

lemma htonl_little_endian_example: "htonl Little_endian 0x01000002 = 0x02000001"
  by code_simp

end
